theory Spec2Isabelle
  imports Complex_Main
begin

section \<open>Numbers, indices and errors\<close>

text \<open>
  The source computes with \<^verbatim>\<open>double\<close>. Finite doubles are modelled as exact reals
  (no rounding). Variable values, coefficients and costs are plain reals. The doubles on
  which the code itself writes or tests a special value have the type \<open>dbl\<close>:
  \<^verbatim>\<open>NaN\<close> marks an empty slot of the global pool, and \<^verbatim>\<open>-Inf\<close>/\<^verbatim>\<open>+Inf\<close> mark absent
  bounds and the worst value of the function.
  \<^verbatim>\<open>Index\<close> is an unsigned integer, modelled as \<open>nat\<close>; \<^verbatim>\<open>Inf< Index >()\<close> is its
  largest value.
\<close>

datatype dbl = NaN | NegInf | Fin real | PosInf

fun dbl_plus :: "dbl \<Rightarrow> dbl \<Rightarrow> dbl" where
  \<comment> \<open>IEEE addition: NaN is absorbing and \<^verbatim>\<open>Inf + (-Inf)\<close> is NaN.\<close>
  "dbl_plus (Fin a) (Fin b) = Fin (a + b)"
| "dbl_plus NaN _ = NaN"
| "dbl_plus _ NaN = NaN"
| "dbl_plus PosInf NegInf = NaN"
| "dbl_plus NegInf PosInf = NaN"
| "dbl_plus PosInf _ = PosInf"
| "dbl_plus _ PosInf = PosInf"
| "dbl_plus NegInf _ = NegInf"
| "dbl_plus _ NegInf = NegInf"

fun dbl_uminus :: "dbl \<Rightarrow> dbl" where
  "dbl_uminus (Fin a) = Fin (- a)"
| "dbl_uminus PosInf = NegInf"
| "dbl_uminus NegInf = PosInf"
| "dbl_uminus NaN = NaN"

definition dbl_minus :: "dbl \<Rightarrow> dbl \<Rightarrow> dbl" where
  "dbl_minus a b = dbl_plus a (dbl_uminus b)"

fun dbl_scale :: "real \<Rightarrow> dbl \<Rightarrow> dbl" where
  \<comment> \<open>a finite factor times a double: \<^verbatim>\<open>0 * Inf\<close> is NaN.\<close>
  "dbl_scale m (Fin v) = Fin (m * v)"
| "dbl_scale m NaN = NaN"
| "dbl_scale m PosInf = (if m = 0 then NaN else if m > 0 then PosInf else NegInf)"
| "dbl_scale m NegInf = (if m = 0 then NaN else if m > 0 then NegInf else PosInf)"

definition fv_add_scaled :: "dbl \<Rightarrow> real \<Rightarrow> dbl \<Rightarrow> dbl" where
  \<comment> \<open>\<^verbatim>\<open>constant += coeff * v\<close>\<close>
  "fv_add_scaled c m v = dbl_plus c (dbl_scale m v)"

definition Inf_Index :: nat where
  "Inf_Index = 4294967295"

datatype error =
    InvalidName            \<comment> \<open>\<^verbatim>\<open>std::invalid_argument\<close>: invalid global pool name\<close>
  | EmptyCombination       \<comment> \<open>\<^verbatim>\<open>std::invalid_argument\<close>: linear combination is empty\<close>
  | InvalidCoefficient     \<comment> \<open>\<^verbatim>\<open>std::invalid_argument\<close>: multiplier below \<^verbatim>\<open>-AAccMlt\<close>\<close>
  | NonConvexCombination   \<comment> \<open>\<^verbatim>\<open>std::invalid_argument\<close>: diagonal multipliers do not sum to 1\<close>
  | InvalidIndex           \<comment> \<open>\<^verbatim>\<open>std::logic_error\<close>/\<^verbatim>\<open>std::invalid_argument\<close>: wrong Variable index\<close>
  | NoSubBlock             \<comment> \<open>\<^verbatim>\<open>std::logic_error\<close>: there must be at least one sub-Block\<close>
  | StructureMismatch      \<comment> \<open>\<^verbatim>\<open>std::logic_error\<close>: blocks do not have the same structure\<close>
  | AssertionFailed        \<comment> \<open>an \<^verbatim>\<open>assert\<close> of the source does not hold\<close>
  | OutOfRange             \<comment> \<open>a vector is read or written past its end (undefined in C++)\<close>

section \<open>The global pool of linearizations\<close>

text \<open>
  \<^verbatim>\<open>InvestmentFunction::GlobalPool\<close>: three parallel vectors indexed by the name of the
  linearization. \<^verbatim>\<open>size()\<close> is the size of the vector of constants.
\<close>

record GlobalPool =
  linearization_constants :: "dbl list"
  linearization_coefficients :: "real list list"
  is_diagonal :: "bool list"

type_synonym LinearCombination = "(nat \<times> real) list"

definition pool_size :: "GlobalPool \<Rightarrow> nat" where
  "pool_size P = length (linearization_constants P)"

definition store :: "dbl \<Rightarrow> real list \<Rightarrow> nat \<Rightarrow> bool \<Rightarrow> GlobalPool \<Rightarrow> error + GlobalPool" where
  "store constant coefficients name diagonal_linearization P =
     (if name \<ge> pool_size P then Inl InvalidName
      else if name \<ge> length (linearization_coefficients P) \<or> name \<ge> length (is_diagonal P)
      then Inl OutOfRange
      else Inr (P\<lparr> linearization_coefficients := (linearization_coefficients P)[name := coefficients],
                  linearization_constants := (linearization_constants P)[name := constant],
                  is_diagonal := (is_diagonal P)[name := diagonal_linearization] \<rparr>))"

definition is_linearization_there :: "GlobalPool \<Rightarrow> nat \<Rightarrow> bool" where
  "is_linearization_there P name =
     (if name \<ge> pool_size P \<or> linearization_constants P ! name = NaN then False else True)"

definition is_linearization_vertical :: "GlobalPool \<Rightarrow> nat \<Rightarrow> bool" where
  "is_linearization_vertical P name =
     (if name \<ge> pool_size P \<or> linearization_constants P ! name = NaN then False
      else \<not> is_diagonal P ! name)"

definition pool_get_linearization_constant :: "GlobalPool \<Rightarrow> nat \<Rightarrow> error + dbl" where
  "pool_get_linearization_constant P name =
     (if name < pool_size P then Inr (linearization_constants P ! name) else Inl InvalidName)"

definition pool_get_linearization_coefficients :: "GlobalPool \<Rightarrow> nat \<times> nat \<Rightarrow> nat \<Rightarrow> error + real list" where
  \<comment> \<open>the dense read \<^verbatim>\<open>g[ i - range.first ] = linearization_coefficients[ name ][ i ]\<close>\<close>
  "pool_get_linearization_coefficients P rng name =
     (if fst rng < snd rng \<and>
         (name \<ge> length (linearization_coefficients P) \<or>
          snd rng > length (linearization_coefficients P ! name))
      then Inl OutOfRange
      else Inr (map (\<lambda>i. linearization_coefficients P ! name ! i) [fst rng ..< snd rng]))"

text \<open>
  The lambda \<^verbatim>\<open>combine\<close> of \<^verbatim>\<open>store_combination_of_linearizations\<close>:
  \<^verbatim>\<open>x[ i ] += multiplier * y[ i ]\<close> for every index of \<open>x\<close>, after
  \<^verbatim>\<open>assert( x.size() == y.size() )\<close>.
\<close>

definition combine :: "real list \<Rightarrow> real list \<Rightarrow> real \<Rightarrow> error + real list" where
  "combine x y multiplier =
     (if length x \<noteq> length y then Inl AssertionFailed
      else Inr (map (\<lambda>i. x ! i + multiplier * y ! i) [0 ..< length x]))"

text \<open>
  The loop over the summands. The accumulator holds the four locals of the source:
  \<^verbatim>\<open>diagonal_linearization\<close>, \<^verbatim>\<open>coefficients\<close>, \<^verbatim>\<open>constant\<close> and \<^verbatim>\<open>coeff_sum_diagonal\<close>.
  As in the source, when \<^verbatim>\<open>coefficients\<close> is still empty it is resized to the summand's
  length and filled with zeros, and \<^verbatim>\<open>combine\<close> runs only in the \<^verbatim>\<open>else\<close> branch.
\<close>

fun combination_loop ::
  "GlobalPool \<Rightarrow> real \<Rightarrow> LinearCombination \<Rightarrow> bool \<times> real list \<times> dbl \<times> real
     \<Rightarrow> error + (bool \<times> real list \<times> dbl \<times> real)" where
  "combination_loop P AAccMlt [] acc = Inr acc"
| "combination_loop P AAccMlt ((linearization_name, coeff) # rest)
       (diagonal_linearization, coefficients, constant, coeff_sum_diagonal) =
     (if coeff < - AAccMlt then Inl InvalidCoefficient
      else if linearization_name \<ge> length (linearization_coefficients P)
            \<or> linearization_name \<ge> length (linearization_constants P)
            \<or> linearization_name \<ge> length (is_diagonal P) then Inl OutOfRange
      else
        (case (if coefficients = []
               then Inr (replicate (length (linearization_coefficients P ! linearization_name)) 0)
               else combine coefficients (linearization_coefficients P ! linearization_name) coeff)
         of Inl e \<Rightarrow> Inl e
          | Inr coefficients' \<Rightarrow>
              combination_loop P AAccMlt rest
                (if is_diagonal P ! linearization_name then True else diagonal_linearization,
                 coefficients',
                 fv_add_scaled constant coeff (linearization_constants P ! linearization_name),
                 if is_diagonal P ! linearization_name then coeff_sum_diagonal + coeff
                 else coeff_sum_diagonal)))"

definition store_combination_of_linearizations ::
  "LinearCombination \<Rightarrow> nat \<Rightarrow> real \<Rightarrow> GlobalPool \<Rightarrow> error + GlobalPool" where
  "store_combination_of_linearizations linear_combination name AAccMlt P =
     (if name \<ge> pool_size P then Inl InvalidName
      else if linear_combination = [] then Inl EmptyCombination
      else
        (case combination_loop P AAccMlt linear_combination (False, [], Fin 0, 0) of
           Inl e \<Rightarrow> Inl e
         | Inr (diagonal_linearization, coefficients, constant, coeff_sum_diagonal) \<Rightarrow>
             if diagonal_linearization \<and>
                \<bar>1 - coeff_sum_diagonal\<bar> > AAccMlt * real (length linear_combination)
             then Inl NonConvexCombination
             else store constant coefficients name diagonal_linearization P))"

section \<open>Convexity flags\<close>

text \<open>
  \<^verbatim>\<open>InvestmentFunction::is_convex\<close> and \<^verbatim>\<open>is_concave\<close> read nothing of the object: the
  state is a parameter of any type.
\<close>

definition is_convex :: "'state \<Rightarrow> bool" where
  "is_convex s = True"

definition is_concave :: "'state \<Rightarrow> bool" where
  "is_concave s = False"

text \<open>
  The multiplier rules of \<^verbatim>\<open>store_combination_of_linearizations\<close> as its documentation
  states them: every multiplier is at least \<^verbatim>\<open>-AAccMlt\<close>, and when some summand is
  diagonal the multipliers of the diagonal summands sum to 1 within \<^verbatim>\<open>K * AAccMlt\<close>,
  \<open>K\<close> being the number of summands.
\<close>

definition coeff_sum_of_diagonal :: "GlobalPool \<Rightarrow> LinearCombination \<Rightarrow> real" where
  "coeff_sum_of_diagonal P L = (\<Sum>(n, c) \<leftarrow> L. if is_diagonal P ! n then c else 0)"

definition some_summand_diagonal :: "GlobalPool \<Rightarrow> LinearCombination \<Rightarrow> bool" where
  "some_summand_diagonal P L = (\<exists>(n, c) \<in> set L. is_diagonal P ! n)"

definition multiplier_rules_violated :: "GlobalPool \<Rightarrow> LinearCombination \<Rightarrow> real \<Rightarrow> bool" where
  "multiplier_rules_violated P L AAccMlt \<longleftrightarrow>
     (\<exists>(n, c) \<in> set L. c < - AAccMlt) \<or>
     (some_summand_diagonal P L \<and>
      \<bar>1 - coeff_sum_of_diagonal P L\<bar> > AAccMlt * real (length L))"

text \<open>
  The pool holds every summand of \<open>L\<close>: the three vectors have the size of the pool, every
  name of \<open>L\<close> is below it, and the coefficient vectors of the summands have one length \<open>m\<close>.
\<close>

definition summands_stored :: "GlobalPool \<Rightarrow> LinearCombination \<Rightarrow> nat \<Rightarrow> bool" where
  "summands_stored P L m \<longleftrightarrow>
     length (linearization_coefficients P) = pool_size P \<and>
     length (is_diagonal P) = pool_size P \<and>
     (\<forall>(n, c) \<in> set L. n < pool_size P \<and> length (linearization_coefficients P ! n) = m)"

text \<open>The pool of the spec's example: two diagonal cuts under names 0 and 1, two free slots.\<close>

definition example_pool :: "real \<Rightarrow> real \<Rightarrow> GlobalPool" where
  "example_pool a b =
     \<lparr> linearization_constants = [Fin a, Fin b, NaN, NaN],
       linearization_coefficients = [[1, 0], [0, 1], [], []],
       is_diagonal = [True, True, False, False] \<rparr>"

section \<open>The investment function: state\<close>

datatype AssetType = eUnitBlock | eLine

datatype ConstraintSide = eLHS | eRHS

datatype ObjectiveSense = eMin | eMax

datatype status =
    kUnEval | kUnbounded | kInfeasible | kOK | kLowPrecision | kStopTime | kStopIter | kError
  | kSubproblemInfeasible | kSolutionNotFound

text \<open>
  The lower bound of an active variable is a double that the code tests against
  \<^verbatim>\<open>-Inf\<close> before adding it to the variable's value. \<^verbatim>\<open>+Inf\<close> is excluded:
  \<^verbatim>\<open>InvestmentBlock\<close> asserts \<^verbatim>\<open>v_lower_bound[ i ] != Inf< double >()\<close> where it turns the
  reformulation on.
\<close>

datatype lower_bound = MinusInf | Lower real

text \<open>
  A sub-Block (an \<^verbatim>\<open>SDDPBlock\<close> with its registered solver) as far as \<^verbatim>\<open>compute\<close> looks at
  it: the identity that owns the Block's lock, the identity of its solver if it has one, the
  number of stages, the number of scenarios, and the objective sense of the unit-commitment
  block of the first stage. \<^verbatim>\<open>Block::lock( id )\<close> is taken to succeed exactly when the Block
  has no owner.
\<close>

record SubBlock =
  owner :: "nat option"
  solver_id :: "nat option"
  time_horizon :: nat
  scenario_set_size :: nat
  objective_sense :: ObjectiveSense

text \<open>
  The fields of \<^verbatim>\<open>InvestmentFunction\<close>. \<open>v_x\<close> holds the current values of the active
  variables (\<^verbatim>\<open>v_x[ i ]->get_value()\<close>). Two fields are not in the source and only record
  what \<^verbatim>\<open>compute\<close> did: \<open>events_handled\<close> counts the calls of
  \<^verbatim>\<open>handle_events( eBeforeTermination )\<close>, and \<open>scenarios_solved\<close> lists the scenarios on
  which the inner solver was run. The Observer, the Modifications and the generator-node map
  are left out.
\<close>

record InvestmentFunction =
  v_x :: "real list"
  v_asset_indices :: "nat list"
  v_asset_type :: "AssetType list"
  v_cost :: "real list"
  v_disinvestment_cost :: "real list"
  v_installed_quantity :: "real list"
  v_lower_bound :: "lower_bound list"
  v_A :: "real list list"
  v_constraints_lower_bound :: "dbl list"
  v_constraints_upper_bound :: "dbl list"
  v_linearization :: "real list"
  f_value :: dbl
  f_status :: status
  f_blocks_are_updated :: bool
  f_diagonal_linearization_required :: bool
  f_compute_linearization :: bool
  f_ignore_modifications :: bool
  f_reformulated_bounds :: bool
  f_has_value :: bool
  f_has_diagonal_linearization :: bool
  f_constraints_tolerance :: real
  f_violated_constraint :: "nat \<times> ConstraintSide"
  f_id :: nat
  v_Block :: "SubBlock list"
  is_locked :: "bool list"
  global_pool :: GlobalPool
  AAccMlt :: real
  events_handled :: nat
  scenarios_solved :: "nat list"

section \<open>The investment function: reading variables and data\<close>

text \<open>
  \<^verbatim>\<open>get_var_value( i , actual )\<close>. The source reads \<^verbatim>\<open>v_x[ i ]\<close> unchecked; every
  caller below checks \<open>i < length (v_x s)\<close> before it calls.
\<close>

definition get_var_value :: "InvestmentFunction \<Rightarrow> nat \<Rightarrow> bool \<Rightarrow> real" where
  "get_var_value s i actual =
     (if f_reformulated_bounds s \<and> \<not> actual \<and> i < length (v_lower_bound s)
      then (case v_lower_bound s ! i of
              Lower l \<Rightarrow> v_x s ! i + l
            | MinusInf \<Rightarrow> v_x s ! i)
      else v_x s ! i)"

definition get_cost :: "InvestmentFunction \<Rightarrow> nat \<Rightarrow> real" where
  "get_cost s i = (if i < length (v_cost s) then v_cost s ! i else 0)"

definition get_disinvestment_cost :: "InvestmentFunction \<Rightarrow> nat \<Rightarrow> real" where
  "get_disinvestment_cost s i =
     (if i < length (v_disinvestment_cost s) then v_disinvestment_cost s ! i else 0)"

definition get_installed_quantity :: "InvestmentFunction \<Rightarrow> nat \<Rightarrow> error + real" where
  "get_installed_quantity s asset =
     (if v_installed_quantity s = [] then Inr 1
      else if asset < length (v_installed_quantity s) then Inr (v_installed_quantity s ! asset)
      else Inl AssertionFailed)"

text \<open>
  \<^verbatim>\<open>worst_value()\<close> reads the objective sense of the unit-commitment block of stage 0 of
  the first sub-Block: \<^verbatim>\<open>get_ucblock( 0 , 0 )\<close> asserts that there is a sub-Block, and
  \<^verbatim>\<open>get_benders_function\<close> throws when that sub-Block has no stage.
\<close>

definition worst_value :: "InvestmentFunction \<Rightarrow> error + dbl" where
  "worst_value s =
     (case v_Block s of
        [] \<Rightarrow> Inl AssertionFailed
      | b # _ \<Rightarrow>
          if time_horizon b = 0 then Inl InvalidIndex
          else Inr (if objective_sense b = eMin then PosInf else NegInf))"

definition handle_events :: "InvestmentFunction \<Rightarrow> InvestmentFunction" where
  "handle_events s = s\<lparr> events_handled := Suc (events_handled s) \<rparr>"

definition reset_linearization :: "InvestmentFunction \<Rightarrow> InvestmentFunction" where
  "reset_linearization s = s\<lparr> v_linearization := replicate (length (v_x s)) 0 \<rparr>"

definition reformulated_bounds :: "bool \<Rightarrow> InvestmentFunction \<Rightarrow> InvestmentFunction" where
  "reformulated_bounds reformulated s = s\<lparr> f_reformulated_bounds := reformulated \<rparr>"

section \<open>The investment function: linear side constraints\<close>

text \<open>
  \<^verbatim>\<open>compute_linear_constraint_value( i )\<close>: the accumulation
  \<^verbatim>\<open>value += v_A[ i ][ j ] * get_var_value( j , false )\<close> over the columns of row \<open>i\<close>.
  A row longer than \<open>v_x\<close> reads past the end of \<open>v_x\<close>.
\<close>

definition compute_linear_constraint_value :: "InvestmentFunction \<Rightarrow> nat \<Rightarrow> error + real" where
  "compute_linear_constraint_value s i =
     (if i \<ge> length (v_A s) \<or> length (v_A s ! i) > length (v_x s) then Inl OutOfRange
      else Inr (\<Sum>j \<leftarrow> [0 ..< length (v_A s ! i)]. v_A s ! i ! j * get_var_value s j False))"

text \<open>
  The two tests of \<^verbatim>\<open>is_feasible\<close> on one row. For a finite bound the violation is
  divided by \<^verbatim>\<open>max( 1 , abs( bound ) )\<close> only when it is positive. For an infinite bound
  on its natural side the violation is \<^verbatim>\<open>-Inf\<close>, not positive; on the other side it is
  \<^verbatim>\<open>+Inf\<close>, and \<^verbatim>\<open>Inf / Inf\<close> is NaN, which is not greater than the tolerance; a NaN
  bound compares false. So only a finite bound can be found violated.
\<close>

fun lower_side_violated :: "real \<Rightarrow> dbl \<Rightarrow> real \<Rightarrow> bool" where
  "lower_side_violated tol (Fin l) constraint_value =
     (l - constraint_value > 0 \<and> (l - constraint_value) / max 1 \<bar>l\<bar> > tol)"
| "lower_side_violated tol _ constraint_value = False"

fun upper_side_violated :: "real \<Rightarrow> dbl \<Rightarrow> real \<Rightarrow> bool" where
  "upper_side_violated tol (Fin u) constraint_value =
     (constraint_value - u > 0 \<and> (constraint_value - u) / max 1 \<bar>u\<bar> > tol)"
| "upper_side_violated tol _ constraint_value = False"

text \<open>
  The loop of \<^verbatim>\<open>is_feasible\<close> over the rows still to verify. It stops at the first
  violated side, which it records in \<open>f_violated_constraint\<close>.
\<close>

fun is_feasible_rows :: "InvestmentFunction \<Rightarrow> nat list \<Rightarrow> error + (bool \<times> InvestmentFunction)" where
  "is_feasible_rows s [] = Inr (True, s)"
| "is_feasible_rows s (i # rows) =
     (case compute_linear_constraint_value s i of
        Inl e \<Rightarrow> Inl e
      | Inr constraint_value \<Rightarrow>
          if i \<ge> length (v_constraints_lower_bound s) then Inl OutOfRange
          else if lower_side_violated (f_constraints_tolerance s)
                    (v_constraints_lower_bound s ! i) constraint_value
          then Inr (False, s\<lparr> f_violated_constraint := (i, eLHS) \<rparr>)
          else if i \<ge> length (v_constraints_upper_bound s) then Inl OutOfRange
          else if upper_side_violated (f_constraints_tolerance s)
                    (v_constraints_upper_bound s ! i) constraint_value
          then Inr (False, s\<lparr> f_violated_constraint := (i, eRHS) \<rparr>)
          else is_feasible_rows s rows)"

definition is_feasible :: "InvestmentFunction \<Rightarrow> error + (bool \<times> InvestmentFunction)" where
  "is_feasible s =
     (let start = (if fst (f_violated_constraint s) < Inf_Index
                   then fst (f_violated_constraint s) + 1 else 0)
      in is_feasible_rows s [start ..< length (v_A s)])"

section \<open>The investment function: reading the current linearization\<close>

text \<open>
  \<^verbatim>\<open>has_linearization( diagonal )\<close> returns the answer and the new state: it records which
  kind was asked for and, for a vertical one, writes the signed row into the first
  \<open>length (v_x s)\<close> entries of \<open>v_linearization\<close>.
\<close>

definition has_linearization :: "bool \<Rightarrow> InvestmentFunction \<Rightarrow> error + (bool \<times> InvestmentFunction)" where
  "has_linearization diagonal s =
     (if diagonal
      then Inr (f_has_diagonal_linearization s, s\<lparr> f_diagonal_linearization_required := True \<rparr>)
      else
        (let s' = s\<lparr> f_diagonal_linearization_required := False \<rparr>;
             i = fst (f_violated_constraint s)
         in if i < Inf_Index
            then if i \<ge> length (v_A s) then Inl AssertionFailed
                 else if length (v_x s) > length (v_A s ! i)
                       \<or> length (v_x s) > length (v_linearization s) then Inl OutOfRange
                 else Inr (True,
                        s'\<lparr> v_linearization :=
                              map (\<lambda>j. (if snd (f_violated_constraint s) = eLHS then - 1 else 1)
                                         * v_A s ! i ! j) [0 ..< length (v_x s)]
                              @ drop (length (v_x s)) (v_linearization s) \<rparr>)
            else Inr (False, s')))"

text \<open>
  \<^verbatim>\<open>get_linearization_coefficients( g , range , name )\<close>, the dense read over a range.
\<close>

definition get_linearization_coefficients ::
  "InvestmentFunction \<Rightarrow> nat \<times> nat \<Rightarrow> nat \<Rightarrow> error + real list" where
  "get_linearization_coefficients s rng name =
     (let first = fst rng; second = min (snd rng) (length (v_x s))
      in if second \<le> first then Inr []
         else if name \<noteq> Inf_Index
         then pool_get_linearization_coefficients (global_pool s) (first, second) name
         else if f_diagonal_linearization_required s
         then if second > length (v_linearization s) then Inl OutOfRange
              else Inr (map (\<lambda>i. v_linearization s ! i) [first ..< second])
         else
           (let i = fst (f_violated_constraint s)
            in if i \<ge> length (v_A s) then Inl AssertionFailed
               else if second > length (v_A s ! i) then Inl OutOfRange
               else Inr (map (\<lambda>j. (if snd (f_violated_constraint s) = eLHS then - 1 else 1)
                                     * v_A s ! i ! j) [first ..< second])))"

text \<open>
  \<^verbatim>\<open>get_linearization_constant( name )\<close>. For the diagonal linearization \<open>alpha\<close> starts at
  \<open>f_value\<close> and loses \<^verbatim>\<open>v_linearization[ i ] * get_var_value( i )\<close> for every entry; for
  the vertical one it is the shift \<^verbatim>\<open>v_A[ i ][ j ] * v_lower_bound[ j ]\<close>, summed over
  the finite lower bounds when the bounds are reformulated, subtracted from the lower bound
  of the row or with the upper bound subtracted from it.
\<close>

definition vertical_shift :: "InvestmentFunction \<Rightarrow> nat \<Rightarrow> real" where
  "vertical_shift s i =
     (if f_reformulated_bounds s
      then (\<Sum>j \<leftarrow> [0 ..< length (v_A s ! i)].
              if j < length (v_lower_bound s)
              then (case v_lower_bound s ! j of Lower l \<Rightarrow> v_A s ! i ! j * l | MinusInf \<Rightarrow> 0)
              else 0)
      else 0)"

definition get_linearization_constant :: "InvestmentFunction \<Rightarrow> nat \<Rightarrow> error + dbl" where
  "get_linearization_constant s name =
     (if name = Inf_Index
      then if f_diagonal_linearization_required s
           then if length (v_linearization s) > length (v_x s) then Inl OutOfRange
                else Inr (dbl_minus (f_value s)
                            (Fin (\<Sum>i \<leftarrow> [0 ..< length (v_linearization s)].
                                     v_linearization s ! i * get_var_value s i True)))
           else
             (let i = fst (f_violated_constraint s)
              in if i \<ge> length (v_A s) then Inl AssertionFailed
                 else if snd (f_violated_constraint s) = eLHS
                 then if i \<ge> length (v_constraints_lower_bound s) then Inl OutOfRange
                      else Inr (dbl_minus (v_constraints_lower_bound s ! i)
                                  (Fin (vertical_shift s i)))
                 else if i \<ge> length (v_constraints_upper_bound s) then Inl OutOfRange
                      else Inr (dbl_minus (Fin (vertical_shift s i))
                                  (v_constraints_upper_bound s ! i)))
      else pool_get_linearization_constant (global_pool s) name)"

section \<open>The investment function: compute\<close>

text \<open>
  What the inner solver of a sub-Block answers on one scenario, as far as \<^verbatim>\<open>compute\<close>
  reads it: the status returned by \<^verbatim>\<open>solver->compute( true )\<close>, whether a primal solution
  exists, the value \<^verbatim>\<open>solver->get_var_value()\<close>, and what \<^verbatim>\<open>update_linearization\<close> does
  with the primal and dual solutions of that scenario: \<open>None\<close> when it throws, otherwise the
  amount it adds to each entry of \<open>v_linearization\<close>. The environment of one call of
  \<^verbatim>\<open>compute\<close> gives this answer for every scenario, and tells whether \<^verbatim>\<open>update_blocks\<close>
  throws.
\<close>

record ScenarioResult =
  solver_status :: status
  has_var_solution :: bool
  solver_value :: real
  linearization_update :: "(nat \<Rightarrow> real) option"

record Environment =
  update_blocks_throws :: bool
  solve :: "nat \<Rightarrow> ScenarioResult"

text \<open>
  Locking the inner Blocks: \<^verbatim>\<open>owned[ i ] = v_Block[ i ]->is_owned_by( f_id )\<close>, and a
  Block that is not owned is locked. The result is the vector \<open>owned\<close>, the Blocks, and
  whether every lock was obtained; at the first lock that fails the remaining Blocks are left
  as they are.
\<close>

fun lock_inner_blocks :: "nat \<Rightarrow> SubBlock list \<Rightarrow> bool list \<times> SubBlock list \<times> bool" where
  "lock_inner_blocks ident [] = ([], [], True)"
| "lock_inner_blocks ident (b # bs) =
     (if owner b = Some ident
      then (case lock_inner_blocks ident bs of (owned, bs', ok) \<Rightarrow> (True # owned, b # bs', ok))
      else if owner b = None
      then (case lock_inner_blocks ident bs of
              (owned, bs', ok) \<Rightarrow> (False # owned, b\<lparr> owner := Some ident \<rparr> # bs', ok))
      else ([False], b # bs, False))"

text \<open>The function lends its identity to every solver, and remembers the solvers' own.\<close>

definition lend_identity :: "nat \<Rightarrow> SubBlock list \<Rightarrow> SubBlock list" where
  "lend_identity ident bs =
     map (\<lambda>b. if solver_id b \<noteq> None then b\<lparr> solver_id := Some ident \<rparr> else b) bs"

text \<open>
  The loop that ends every path after the locks were taken: the solver gets its identity
  back and a Block that was not owned at entry is unlocked.
\<close>

definition release_inner_block :: "nat \<Rightarrow> bool \<times> nat option \<times> SubBlock \<Rightarrow> SubBlock" where
  "release_inner_block ident t =
     (case t of (was_owned, saved_id, b) \<Rightarrow>
        (let b1 = (if solver_id b \<noteq> None then b\<lparr> solver_id := saved_id \<rparr> else b)
         in if \<not> was_owned \<and> owner b1 = Some ident then b1\<lparr> owner := None \<rparr> else b1))"

definition release_inner_blocks ::
  "nat \<Rightarrow> bool list \<Rightarrow> nat option list \<Rightarrow> SubBlock list \<Rightarrow> SubBlock list" where
  "release_inner_blocks ident owned solver_ids bs =
     map (release_inner_block ident) (zip owned (zip solver_ids bs))"

text \<open>
  \<^verbatim>\<open>lock_sub_block\<close> and \<^verbatim>\<open>unlock_sub_block\<close>. The scenarios are run one after the other
  (the loop without worker threads), so a call of \<^verbatim>\<open>lock_sub_block\<close> that finds every
  slot locked waits for ever: no result, written \<open>Blocked\<close>. \<open>Terminated\<close> is the end of the
  program when an exception leaves a structured block of OpenMP.
\<close>

fun first_unlocked :: "bool list \<Rightarrow> nat option" where
  "first_unlocked [] = None"
| "first_unlocked (b # bs) = (if \<not> b then Some 0 else map_option Suc (first_unlocked bs))"

datatype failure = Throws error | Blocked | NoSolver | NotANumber | Terminated

definition lock_sub_block :: "InvestmentFunction \<Rightarrow> failure + (nat \<times> InvestmentFunction)" where
  "lock_sub_block s =
     (let locked = (if is_locked s = [] then replicate (length (v_Block s)) False
                    else is_locked s)
      in case first_unlocked locked of
           None \<Rightarrow> Inl Blocked
         | Some i \<Rightarrow> Inr (i, s\<lparr> is_locked := locked[i := True] \<rparr>))"

definition unlock_sub_block :: "nat \<Rightarrow> InvestmentFunction \<Rightarrow> failure + InvestmentFunction" where
  "unlock_sub_block i s =
     (if i \<ge> length (is_locked s) then Inl (Throws OutOfRange)
      else Inr (s\<lparr> is_locked := (is_locked s)[i := False] \<rparr>))"

fun unlock_sub_blocks :: "nat list \<Rightarrow> InvestmentFunction \<Rightarrow> failure + InvestmentFunction" where
  "unlock_sub_blocks [] s = Inr s"
| "unlock_sub_blocks (i # rest) s =
     (case unlock_sub_block i s of Inl e \<Rightarrow> Inl e | Inr s' \<Rightarrow> unlock_sub_blocks rest s')"

text \<open>
  \<^verbatim>\<open>update_linearization\<close> adds the contribution of the scenario to every entry of
  \<open>v_linearization\<close>.
\<close>

definition update_linearization :: "(nat \<Rightarrow> real) \<Rightarrow> InvestmentFunction \<Rightarrow> InvestmentFunction" where
  "update_linearization g s =
     s\<lparr> v_linearization := map (\<lambda>i. v_linearization s ! i + g i) [0 ..< length (v_linearization s)] \<rparr>"

text \<open>
  The body of the loop over the scenarios. The accumulator holds the locals
  \<^verbatim>\<open>interrupt_loop\<close>, \<^verbatim>\<open>error_status\<close> and \<^verbatim>\<open>simulation_value\<close> and the object. An
  inner solver that is absent (\<^verbatim>\<open>get_solver\<close> returns a null pointer that the loop
  dereferences) is \<open>NoSolver\<close>.

  \<^verbatim>\<open>update_linearization\<close> is called inside the block of \<^verbatim>\<open>#pragma omp critical\<close>, and the
  \<^verbatim>\<open>try\<close> with its handler is around that block. An exception of \<^verbatim>\<open>update_linearization\<close>
  would have to leave the critical block to reach the handler, which OpenMP does not allow:
  the program is terminated, and the handler (which would release the slot and interrupt the
  loop with status \<^verbatim>\<open>kError\<close>) is never run.
\<close>

definition scenario_body ::
  "Environment \<Rightarrow> nat \<Rightarrow> bool \<times> status \<times> real \<times> InvestmentFunction
     \<Rightarrow> failure + (bool \<times> status \<times> real \<times> InvestmentFunction)" where
  "scenario_body env scenario acc =
     (case acc of (interrupt_loop, error_status, simulation_value, s) \<Rightarrow>
      if interrupt_loop then Inr acc
      else
        (case lock_sub_block s of
           Inl e \<Rightarrow> Inl e
         | Inr (sub_block_index, s1) \<Rightarrow>
             if sub_block_index \<ge> length (v_Block s1) then Inl (Throws OutOfRange)
             else if solver_id (v_Block s1 ! sub_block_index) = None then Inl NoSolver
             else
               (let r = solve env scenario;
                    s2 = s1\<lparr> scenarios_solved := scenarios_solved s1 @ [scenario] \<rparr>
                in if \<not> has_var_solution r
                   then (case unlock_sub_block sub_block_index s2 of
                           Inl e \<Rightarrow> Inl e
                         | Inr s3 \<Rightarrow> Inr (True, solver_status r, simulation_value, s3))
                   else
                     (let s3 = s2\<lparr> f_status := solver_status r \<rparr>
                      in if f_compute_linearization s3 \<and> linearization_update r = None
                         then Inl Terminated
                         else
                           (let s4 = (if f_compute_linearization s3
                                      then update_linearization (the (linearization_update r)) s3
                                      else s3)
                            in case unlock_sub_block sub_block_index s4 of
                                 Inl e \<Rightarrow> Inl e
                               | Inr s5 \<Rightarrow>
                                   Inr (interrupt_loop, error_status,
                                        simulation_value + solver_value r, s5))))))"

text \<open>The loop over the scenarios, one after the other.\<close>

fun scenario_loop ::
  "Environment \<Rightarrow> nat list \<Rightarrow> bool \<times> status \<times> real \<times> InvestmentFunction
     \<Rightarrow> failure + (bool \<times> status \<times> real \<times> InvestmentFunction)" where
  "scenario_loop env [] acc = Inr acc"
| "scenario_loop env (scenario # rest) acc =
     (case scenario_body env scenario acc of
        Inl e \<Rightarrow> Inl e
      | Inr acc' \<Rightarrow> scenario_loop env rest acc')"

text \<open>
  The linear term of the objective for asset \<open>i\<close>: an investment when the value of the
  variable exceeds the installed quantity, a disinvestment otherwise.
\<close>

definition linear_term :: "nat \<Rightarrow> InvestmentFunction \<Rightarrow> failure + InvestmentFunction" where
  "linear_term i s =
     (case get_installed_quantity s i of
        Inl e \<Rightarrow> Inl (Throws e)
      | Inr installed_quantity \<Rightarrow>
          if i \<ge> length (v_linearization s) then Inl (Throws OutOfRange)
          else
            (let x = get_var_value s i False
             in if x > installed_quantity
                then Inr (s\<lparr> f_value := dbl_plus (f_value s)
                                         (Fin (get_cost s i * (x - installed_quantity))),
                           v_linearization :=
                             (v_linearization s)[i := v_linearization s ! i + get_cost s i] \<rparr>)
                else Inr (s\<lparr> f_value := dbl_plus (f_value s)
                                         (Fin (get_disinvestment_cost s i * (installed_quantity - x))),
                           v_linearization :=
                             (v_linearization s)[i := v_linearization s ! i
                                                        - get_disinvestment_cost s i] \<rparr>)))"

fun linear_term_loop :: "nat list \<Rightarrow> InvestmentFunction \<Rightarrow> failure + InvestmentFunction" where
  "linear_term_loop [] s = Inr s"
| "linear_term_loop (i # rest) s =
     (case linear_term i s of Inl e \<Rightarrow> Inl e | Inr s' \<Rightarrow> linear_term_loop rest s')"

definition get_number_scenarios :: "InvestmentFunction \<Rightarrow> nat" where
  "get_number_scenarios s = (case v_Block s of [] \<Rightarrow> 0 | b # _ \<Rightarrow> scenario_set_size b)"

text \<open>
  The error return of \<^verbatim>\<open>compute\<close>: the value becomes the worst value, the status
  \<^verbatim>\<open>kError\<close>, and the termination events are handled.
\<close>

definition return_error :: "InvestmentFunction \<Rightarrow> failure + InvestmentFunction" where
  "return_error s =
     (case worst_value s of
        Inl e \<Rightarrow> Inl (Throws e)
      | Inr w \<Rightarrow> Inr (handle_events (s\<lparr> f_value := w, f_status := kError \<rparr>)))"

text \<open>
  \<^verbatim>\<open>compute( changedvars )\<close>, cut into its parts from the end backwards. The returned
  status is \<open>f_status\<close> of the returned object.

  The end of a successful evaluation: expectation of value and linearization, linear term,
  release of the inner Blocks. With no scenario the source divides \<^verbatim>\<open>0.0\<close> by zero and
  publishes NaN as value and as every entry of the linearization; the model stops there with
  \<open>NotANumber\<close>.
\<close>

definition finish_evaluation ::
  "bool list \<Rightarrow> nat option list \<Rightarrow> nat \<Rightarrow> bool \<Rightarrow> real \<Rightarrow> InvestmentFunction
     \<Rightarrow> failure + InvestmentFunction" where
  "finish_evaluation owned solver_ids num_scenarios saved_f_ignore_modifications
       simulation_value s =
     (if num_scenarios = 0 then Inl NotANumber
      else
        (case linear_term_loop [0 ..< length (v_x s)]
                (s\<lparr> f_value := Fin (simulation_value / real num_scenarios),
                    f_ignore_modifications := saved_f_ignore_modifications,
                    v_linearization :=
                      map (\<lambda>v. v / real num_scenarios) (v_linearization s) \<rparr>) of
           Inl e \<Rightarrow> Inl e
         | Inr s' \<Rightarrow>
             Inr (handle_events
                    (s'\<lparr> v_Block := release_inner_blocks (f_id s') owned solver_ids (v_Block s'),
                        f_has_diagonal_linearization := f_compute_linearization s',
                        f_has_value := True,
                        f_status := kOK \<rparr>))))"

text \<open>The return after the loop over the scenarios was interrupted.\<close>

definition interrupted_return ::
  "bool list \<Rightarrow> nat option list \<Rightarrow> InvestmentFunction \<Rightarrow> failure + InvestmentFunction" where
  "interrupted_return owned solver_ids s =
     (case unlock_sub_blocks [0 ..< length (v_Block s)]
             (s\<lparr> v_Block := release_inner_blocks (f_id s) owned solver_ids (v_Block s) \<rparr>) of
        Inl e \<Rightarrow> Inl e
      | Inr s' \<Rightarrow> return_error s')"

text \<open>From the update of the Blocks to the end.\<close>

definition run_scenarios ::
  "Environment \<Rightarrow> bool list \<Rightarrow> nat option list \<Rightarrow> InvestmentFunction
     \<Rightarrow> failure + InvestmentFunction" where
  "run_scenarios env owned solver_ids s =
     (if update_blocks_throws env
      then return_error
             (s\<lparr> v_Block := release_inner_blocks (f_id s) owned solver_ids (v_Block s),
                 f_ignore_modifications := True \<rparr>)
      else
        (let s1 = s\<lparr> f_blocks_are_updated := True \<rparr>;
             num_scenarios = get_number_scenarios s1;
             saved_f_ignore_modifications = f_ignore_modifications s1;
             s2 = s1\<lparr> f_value := Fin 0, f_ignore_modifications := True, f_status := kUnEval \<rparr>
         in case scenario_loop env [0 ..< num_scenarios] (False, kError, 0, s2) of
              Inl e \<Rightarrow> Inl e
            | Inr (interrupt_loop, error_status, simulation_value, s3) \<Rightarrow>
                if interrupt_loop then interrupted_return owned solver_ids s3
                else finish_evaluation owned solver_ids num_scenarios
                       saved_f_ignore_modifications simulation_value s3))"

text \<open>From the check that there is a sub-Block to the end: locks, identities, scenarios.\<close>

definition evaluate :: "Environment \<Rightarrow> InvestmentFunction \<Rightarrow> failure + InvestmentFunction" where
  "evaluate env s =
     (if v_Block s = [] then Inl (Throws NoSubBlock)
      else
        (case lock_inner_blocks (f_id s) (v_Block s) of
           (owned, blocks, locked) \<Rightarrow>
             if \<not> locked then return_error (s\<lparr> v_Block := blocks \<rparr>)
             else run_scenarios env owned (map solver_id blocks)
                    (s\<lparr> v_Block := lend_identity (f_id s) blocks \<rparr>)))"

definition compute :: "Environment \<Rightarrow> bool \<Rightarrow> InvestmentFunction \<Rightarrow> failure + InvestmentFunction" where
  "compute env changedvars s =
     (if \<not> changedvars \<and> f_blocks_are_updated s then Inr (handle_events s)
      else
        (case is_feasible
                ((reset_linearization s)
                   \<lparr> f_has_diagonal_linearization := False, f_has_value := False,
                     f_violated_constraint := (Inf_Index, eLHS) \<rparr>) of
           Inl e \<Rightarrow> Inl (Throws e)
         | Inr (feasible, s') \<Rightarrow>
             if \<not> feasible
             then (case worst_value s' of
                     Inl e \<Rightarrow> Inl (Throws e)
                   | Inr w \<Rightarrow>
                       Inr (handle_events
                              (s'\<lparr> f_has_value := True, f_value := w, f_status := kOK \<rparr>)))
             else evaluate env s'))"

section \<open>The investment function: removing variables\<close>

text \<open>
  \<^verbatim>\<open>std::vector::erase\<close> of one position and of a range of positions; erasing past the end
  of the vector is undefined in the source.
\<close>

definition erase_at :: "nat \<Rightarrow> 'a list \<Rightarrow> error + 'a list" where
  "erase_at i xs = (if i \<ge> length xs then Inl OutOfRange else Inr (take i xs @ drop (Suc i) xs))"

definition erase_range :: "nat \<Rightarrow> nat \<Rightarrow> 'a list \<Rightarrow> error + 'a list" where
  "erase_range first second xs =
     (if second > length xs then Inl OutOfRange else Inr (take first xs @ drop second xs))"

text \<open>
  \<^verbatim>\<open>remove_variable( i )\<close> erases position \<open>i\<close> of \<open>v_x\<close>, \<open>v_asset_indices\<close> and
  \<open>v_asset_type\<close>, and of no other vector.
\<close>

definition remove_variable :: "nat \<Rightarrow> InvestmentFunction \<Rightarrow> error + InvestmentFunction" where
  "remove_variable i s =
     (if i \<ge> length (v_x s) then Inl InvalidIndex
      else
        (case erase_at i (v_asset_indices s) of
           Inl e \<Rightarrow> Inl e
         | Inr asset_indices \<Rightarrow>
             (case erase_at i (v_asset_type s) of
                Inl e \<Rightarrow> Inl e
              | Inr asset_type \<Rightarrow>
                  Inr (s\<lparr> v_x := take i (v_x s) @ drop (Suc i) (v_x s),
                          v_asset_indices := asset_indices,
                          v_asset_type := asset_type,
                          f_blocks_are_updated := False \<rparr>))))"

text \<open>\<^verbatim>\<open>remove_variables( range )\<close>.\<close>

definition remove_variables_range :: "nat \<times> nat \<Rightarrow> InvestmentFunction \<Rightarrow> error + InvestmentFunction" where
  "remove_variables_range rng s =
     (let first = fst rng; second = min (snd rng) (length (v_x s))
      in if second \<le> first then Inr s
         else if first = 0 \<and> second = length (v_x s)
         then Inr (s\<lparr> f_blocks_are_updated := False, v_x := [], v_asset_indices := [],
                      v_asset_type := [], v_cost := [], v_disinvestment_cost := [] \<rparr>)
         else
           (case erase_range first second (v_asset_indices s) of
              Inl e \<Rightarrow> Inl e
            | Inr asset_indices \<Rightarrow>
           (case erase_range first second (v_asset_type s) of
              Inl e \<Rightarrow> Inl e
            | Inr asset_type \<Rightarrow>
           (case erase_range first second (v_cost s) of
              Inl e \<Rightarrow> Inl e
            | Inr cost \<Rightarrow>
           (case erase_range first second (v_disinvestment_cost s) of
              Inl e \<Rightarrow> Inl e
            | Inr disinvestment_cost \<Rightarrow>
                Inr (s\<lparr> f_blocks_are_updated := False,
                        v_x := take first (v_x s) @ drop second (v_x s),
                        v_asset_indices := asset_indices,
                        v_asset_type := asset_type,
                        v_cost := cost,
                        v_disinvestment_cost := disinvestment_cost \<rparr>))))))"

text \<open>
  The template \<^verbatim>\<open>compact( x , indices )\<close>. Its first loop walks \<open>i\<close> upwards until every
  index after the first has been met, moving the elements that stay to the write position
  \<open>xit\<close>; it reads \<^verbatim>\<open>x[ i ]\<close> unchecked. Its second loop moves the rest, and the vector is
  then shortened by the number of indices.
\<close>

function compact_scan :: "'a list \<Rightarrow> nat list \<Rightarrow> nat \<Rightarrow> nat \<Rightarrow> error + ('a list \<times> nat \<times> nat)" where
  "compact_scan x [] xit i = Inr (x, xit, i)"
| "compact_scan x (n # nit) xit i =
     (if n = i then compact_scan x nit xit (Suc i)
      else if i \<ge> length x then Inl OutOfRange
      else compact_scan (x[xit := x ! i]) (n # nit) (Suc xit) (Suc i))"
  by pat_completeness auto
termination
  by (relation "measures [\<lambda>(x, nit, xit, i). length nit, \<lambda>(x, nit, xit, i). length x - i]") auto

function compact_tail :: "'a list \<Rightarrow> nat \<Rightarrow> nat \<Rightarrow> 'a list" where
  "compact_tail x xit i =
     (if i < length x then compact_tail (x[xit := x ! i]) (Suc xit) (Suc i) else x)"
  by pat_completeness auto
termination
  by (relation "measure (\<lambda>(x, xit, i). length x - i)") auto

declare compact_tail.simps [simp del]

definition compact :: "'a list \<Rightarrow> nat list \<Rightarrow> error + 'a list" where
  "compact x indices =
     (case indices of
        [] \<Rightarrow> Inl OutOfRange
      | n # nit \<Rightarrow>
          (case compact_scan x nit n (Suc n) of
             Inl e \<Rightarrow> Inl e
           | Inr (x', xit, i) \<Rightarrow>
               (let x'' = compact_tail x' xit i
                in if length indices > length x'' then Inl OutOfRange
                   else Inr (take (length x'' - length indices) x''))))"

text \<open>\<^verbatim>\<open>remove_variables( indices , ordered )\<close>.\<close>

definition remove_variables_subset ::
  "nat list \<Rightarrow> bool \<Rightarrow> InvestmentFunction \<Rightarrow> error + InvestmentFunction" where
  "remove_variables_subset indices ordered s =
     (if indices = []
      then if v_x s = [] then Inr s
           else Inr (s\<lparr> v_x := [], v_asset_indices := [], v_asset_type := [], v_cost := [],
                        v_disinvestment_cost := [], f_blocks_are_updated := False \<rparr>)
      else
        (let sorted_indices = (if ordered then indices else sort indices)
         in if last sorted_indices \<ge> length (v_x s) then Inl InvalidIndex
            else
              (case compact (v_asset_indices s) sorted_indices of
                 Inl e \<Rightarrow> Inl e
               | Inr asset_indices \<Rightarrow>
              (case compact (v_asset_type s) sorted_indices of
                 Inl e \<Rightarrow> Inl e
               | Inr asset_type \<Rightarrow>
              (case compact (v_cost s) sorted_indices of
                 Inl e \<Rightarrow> Inl e
               | Inr cost \<Rightarrow>
              (case compact (v_disinvestment_cost s) sorted_indices of
                 Inl e \<Rightarrow> Inl e
               | Inr disinvestment_cost \<Rightarrow>
              (case compact (v_x s) sorted_indices of
                 Inl e \<Rightarrow> Inl e
               | Inr x \<Rightarrow>
                   Inr (s\<lparr> f_blocks_are_updated := False,
                           v_asset_indices := asset_indices,
                           v_asset_type := asset_type,
                           v_cost := cost,
                           v_disinvestment_cost := disinvestment_cost,
                           v_x := x \<rparr>))))))))"

text \<open>
  The size invariant of the data model, in two parts: the asset descriptors have the size of
  \<open>v_x\<close>, and every row of the linear side constraints has as many columns.
\<close>

definition descriptors_match :: "InvestmentFunction \<Rightarrow> bool" where
  "descriptors_match s \<longleftrightarrow>
     length (v_asset_indices s) = length (v_x s) \<and>
     length (v_asset_type s) = length (v_x s) \<and>
     length (v_cost s) = length (v_x s) \<and>
     length (v_disinvestment_cost s) = length (v_x s)"

definition columns_match :: "InvestmentFunction \<Rightarrow> bool" where
  "columns_match s \<longleftrightarrow> (\<forall>row \<in> set (v_A s). length row = length (v_x s))"

section \<open>Example objects\<close>

text \<open>
  An object as the constructor leaves it (no variable, no sub-Block, nothing evaluated), and
  a sub-Block with one stage, one scenario, a solver, no owner and a minimisation objective.
\<close>

definition empty_pool :: GlobalPool where
  "empty_pool = \<lparr> linearization_constants = [], linearization_coefficients = [], is_diagonal = [] \<rparr>"

definition new_function :: InvestmentFunction where
  "new_function =
     \<lparr> v_x = [], v_asset_indices = [], v_asset_type = [], v_cost = [],
       v_disinvestment_cost = [], v_installed_quantity = [], v_lower_bound = [], v_A = [],
       v_constraints_lower_bound = [], v_constraints_upper_bound = [], v_linearization = [],
       f_value = Fin 0, f_status = kUnEval, f_blocks_are_updated = False,
       f_diagonal_linearization_required = False, f_compute_linearization = True,
       f_ignore_modifications = False, f_reformulated_bounds = False, f_has_value = False,
       f_has_diagonal_linearization = False, f_constraints_tolerance = 1 / 1000000,
       f_violated_constraint = (Inf_Index, eLHS), f_id = 1, v_Block = [], is_locked = [],
       global_pool = empty_pool, AAccMlt = 1 / 1000000, events_handled = 0,
       scenarios_solved = [] \<rparr>"

definition one_scenario_block :: SubBlock where
  "one_scenario_block =
     \<lparr> owner = None, solver_id = Some 2, time_horizon = 1, scenario_set_size = 1,
       objective_sense = eMin \<rparr>"

text \<open>
  Two assets with costs 10 and 20, nothing installed, and the side constraint
  \<open>x\<^sub>0 + x\<^sub>1 \<le> 2\<close>, at the point (3, 1).
\<close>

definition two_assets :: InvestmentFunction where
  "two_assets =
     new_function
       \<lparr> v_x := [3, 1], v_asset_indices := [0, 1], v_asset_type := [eUnitBlock, eUnitBlock],
         v_cost := [10, 20], v_disinvestment_cost := [0, 0], v_installed_quantity := [0, 0],
         v_A := [[1, 1]], v_constraints_lower_bound := [NegInf],
         v_constraints_upper_bound := [Fin 2], v_Block := [one_scenario_block] \<rparr>"

text \<open>
  One asset with installed quantity 4, cost 10 and disinvestment cost 3, at the point \<open>x\<close>,
  and an inner solver that answers every scenario with value 0 and no contribution to the
  linearization.
\<close>

definition one_asset :: "real \<Rightarrow> InvestmentFunction" where
  "one_asset x =
     new_function
       \<lparr> v_x := [x], v_asset_indices := [0], v_asset_type := [eUnitBlock],
         v_cost := [10], v_disinvestment_cost := [3], v_installed_quantity := [4],
         v_Block := [one_scenario_block] \<rparr>"

definition zero_cost_environment :: Environment where
  "zero_cost_environment =
     \<lparr> update_blocks_throws = False,
       solve = (\<lambda>scenario. \<lparr> solver_status = kOK, has_var_solution = True, solver_value = 0,
                             linearization_update = Some (\<lambda>i. 0) \<rparr>) \<rparr>"

section \<open>Reformulated bounds\<close>

text \<open>
  The shift of variable \<open>j\<close>: its lower bound when the bounds are reformulated and the bound
  is finite, and 0 otherwise.
\<close>

definition lower_bound_shift :: "InvestmentFunction \<Rightarrow> nat \<Rightarrow> real" where
  "lower_bound_shift s j =
     (if f_reformulated_bounds s \<and> j < length (v_lower_bound s)
      then (case v_lower_bound s ! j of Lower l \<Rightarrow> l | MinusInf \<Rightarrow> 0)
      else 0)"

text \<open>
  The same object without the reformulation, at the same external point: the variables hold
  the values that \<^verbatim>\<open>get_var_value( i , false )\<close> reads in the reformulated object.
\<close>

definition externalized :: "InvestmentFunction \<Rightarrow> InvestmentFunction" where
  "externalized s =
     s\<lparr> f_reformulated_bounds := False,
        v_x := map (\<lambda>i. get_var_value s i False) [0 ..< length (v_x s)] \<rparr>"

text \<open>
  Coefficient \<open>j\<close> of the linearization that \<^verbatim>\<open>get_linearization_constant\<close> is about (the
  diagonal one when it is required, otherwise the signed row of the violated constraint), and
  the number of these coefficients.
\<close>

definition current_coefficient :: "InvestmentFunction \<Rightarrow> nat \<Rightarrow> real" where
  "current_coefficient s j =
     (if f_diagonal_linearization_required s then v_linearization s ! j
      else (if snd (f_violated_constraint s) = eLHS then - 1 else 1)
           * v_A s ! fst (f_violated_constraint s) ! j)"

definition current_size :: "InvestmentFunction \<Rightarrow> nat" where
  "current_size s =
     (if f_diagonal_linearization_required s then length (v_linearization s)
      else length (v_A s ! fst (f_violated_constraint s)))"

text \<open>
  One asset with bounds [2, 5], reformulated, at the internal point 1 (the external point 3),
  with the side constraint \<open>x \<ge> 4\<close>.
\<close>

definition shifted_asset :: InvestmentFunction where
  "shifted_asset =
     (one_asset 1)
       \<lparr> v_lower_bound := [Lower 2], f_reformulated_bounds := True, v_A := [[1]],
         v_constraints_lower_bound := [Fin 4], v_constraints_upper_bound := [PosInf] \<rparr>"

section \<open>What compute is expected to deliver\<close>

text \<open>
  The linear side constraints hold at the current point within the relative tolerance: for
  every row, the value \<open>a\<^sub>i \<cdot> x\<close> at the external values of the variables is not below a
  finite lower bound, nor above a finite upper bound, by more than the tolerance times
  \<open>max(1, |bound|)\<close>.
\<close>

definition constraint_value :: "InvestmentFunction \<Rightarrow> nat \<Rightarrow> real" where
  "constraint_value s i =
     (\<Sum>j \<leftarrow> [0 ..< length (v_A s ! i)]. v_A s ! i ! j * get_var_value s j False)"

definition lower_side_holds :: "real \<Rightarrow> dbl \<Rightarrow> real \<Rightarrow> bool" where
  "lower_side_holds tol l v = (case l of Fin r \<Rightarrow> r - v \<le> max 1 \<bar>r\<bar> * tol | _ \<Rightarrow> True)"

definition upper_side_holds :: "real \<Rightarrow> dbl \<Rightarrow> real \<Rightarrow> bool" where
  "upper_side_holds tol u v = (case u of Fin r \<Rightarrow> v - r \<le> max 1 \<bar>r\<bar> * tol | _ \<Rightarrow> True)"

definition linear_constraints_hold :: "InvestmentFunction \<Rightarrow> bool" where
  "linear_constraints_hold s \<longleftrightarrow>
     (\<forall>i < length (v_A s).
        lower_side_holds (f_constraints_tolerance s) (v_constraints_lower_bound s ! i)
          (constraint_value s i)
      \<and> upper_side_holds (f_constraints_tolerance s) (v_constraints_upper_bound s ! i)
          (constraint_value s i))"

text \<open>
  The sizes of the constraint data: one column for each variable in every row, the two
  bounds of every row, and a number of rows that an \<^verbatim>\<open>Index\<close> can hold.
\<close>

definition constraints_sized :: "InvestmentFunction \<Rightarrow> bool" where
  "constraints_sized s \<longleftrightarrow>
     columns_match s \<and>
     length (v_constraints_lower_bound s) = length (v_A s) \<and>
     length (v_constraints_upper_bound s) = length (v_A s) \<and>
     length (v_A s) \<le> Inf_Index"

text \<open>
  The expectation over the scenarios of the operational cost and of entry \<open>i\<close> of its
  linearization, and the linear term of asset \<open>i\<close> with its slope.
\<close>

definition operational_value :: "Environment \<Rightarrow> nat \<Rightarrow> real" where
  "operational_value env num_scenarios =
     (\<Sum>scenario \<leftarrow> [0 ..< num_scenarios]. solver_value (solve env scenario))
       / real num_scenarios"

definition operational_linearization :: "Environment \<Rightarrow> nat \<Rightarrow> nat \<Rightarrow> real" where
  "operational_linearization env num_scenarios i =
     (\<Sum>scenario \<leftarrow> [0 ..< num_scenarios]. the (linearization_update (solve env scenario)) i)
       / real num_scenarios"

definition installed_quantity_of :: "InvestmentFunction \<Rightarrow> nat \<Rightarrow> real" where
  "installed_quantity_of s i = (if v_installed_quantity s = [] then 1 else v_installed_quantity s ! i)"

definition investment_term :: "InvestmentFunction \<Rightarrow> nat \<Rightarrow> real" where
  "investment_term s i =
     (if get_var_value s i False > installed_quantity_of s i
      then get_cost s i * (get_var_value s i False - installed_quantity_of s i)
      else get_disinvestment_cost s i * (installed_quantity_of s i - get_var_value s i False))"

definition investment_slope :: "InvestmentFunction \<Rightarrow> nat \<Rightarrow> real" where
  "investment_slope s i =
     (if get_var_value s i False > installed_quantity_of s i
      then get_cost s i else - get_disinvestment_cost s i)"

text \<open>
  What \<^verbatim>\<open>compute\<close> needs of the sub-Blocks to run the scenarios: there is a sub-Block,
  every Block is free or already owned by the function, the first sub-Block has a solver and
  a stage, and every slot is free (\<open>is_locked\<close> is still empty, or has one entry for each
  sub-Block, and no entry is set).
\<close>

definition blocks_ready :: "InvestmentFunction \<Rightarrow> bool" where
  "blocks_ready s \<longleftrightarrow>
     v_Block s \<noteq> [] \<and>
     (\<forall>b \<in> set (v_Block s). owner b = None \<or> owner b = Some (f_id s)) \<and>
     solver_id (hd (v_Block s)) \<noteq> None \<and>
     time_horizon (hd (v_Block s)) > 0 \<and>
     (is_locked s = [] \<or> length (is_locked s) = length (v_Block s)) \<and>
     (\<forall>l \<in> set (is_locked s). \<not> l)"

text \<open>
  Scenario \<open>scenario\<close> fails: its solver produces no primal solution, or the linearization is
  to be computed and its update throws.
\<close>

definition scenario_fails :: "Environment \<Rightarrow> InvestmentFunction \<Rightarrow> nat \<Rightarrow> bool" where
  "scenario_fails env s scenario \<longleftrightarrow>
     \<not> has_var_solution (solve env scenario) \<or>
     (f_compute_linearization s \<and> linearization_update (solve env scenario) = None)"

section \<open>The states of an evaluation\<close>

text \<open>
  Row \<open>i\<close> of the linear constraints holds at the current point within the relative
  tolerance, on both sides.
\<close>

definition row_holds :: "InvestmentFunction \<Rightarrow> nat \<Rightarrow> bool" where
  "row_holds s i \<longleftrightarrow>
        lower_side_holds (f_constraints_tolerance s) (v_constraints_lower_bound s ! i)
          (constraint_value s i)
      \<and> upper_side_holds (f_constraints_tolerance s) (v_constraints_upper_bound s ! i)
          (constraint_value s i)"

text \<open>
  The object once \<^verbatim>\<open>is_feasible\<close> has recorded the violated row and side.
\<close>

definition with_violation :: "InvestmentFunction \<Rightarrow> nat \<times> ConstraintSide \<Rightarrow> InvestmentFunction" where
  "with_violation s v = s\<lparr> f_violated_constraint := v \<rparr>"

text \<open>
  The object as \<^verbatim>\<open>compute\<close> hands it to \<^verbatim>\<open>is_feasible\<close>: the linearization reset, no value,
  no diagonal linearization, no violated constraint.
\<close>

definition prepared :: "InvestmentFunction \<Rightarrow> InvestmentFunction" where
  "prepared s = (reset_linearization s)
                   \<lparr> f_has_diagonal_linearization := False, f_has_value := False,
                     f_violated_constraint := (Inf_Index, eLHS) \<rparr>"

text \<open>
  The object that \<^verbatim>\<open>compute\<close> returns at an infeasible point: the violated row \<open>v\<close> recorded,
  the value \<open>w\<close>, status \<^verbatim>\<open>kOK\<close>, and the events handled.
\<close>

definition infeasible_return :: "InvestmentFunction \<Rightarrow> nat \<times> ConstraintSide \<Rightarrow> dbl \<Rightarrow> InvestmentFunction" where
  "infeasible_return s v w =
     handle_events ((with_violation (prepared s) v)\<lparr> f_has_value := True, f_value := w, f_status := kOK \<rparr>)"

text \<open>
  What \<^verbatim>\<open>lock_inner_blocks\<close> does to one Block that is free or already owned.
\<close>

definition lock_block :: "nat \<Rightarrow> SubBlock \<Rightarrow> SubBlock" where
  "lock_block ident b = (if owner b = Some ident then b else b\<lparr> owner := Some ident \<rparr>)"

text \<open>
  Every slot of \<open>is_locked\<close> is free, and the first sub-Block has a solver.
\<close>

definition slots_free :: "InvestmentFunction \<Rightarrow> bool" where
  "slots_free s \<longleftrightarrow>
     v_Block s \<noteq> [] \<and> solver_id (hd (v_Block s)) \<noteq> None \<and>
     (is_locked s = [] \<or> length (is_locked s) = length (v_Block s)) \<and>
     (\<forall>l \<in> set (is_locked s). \<not> l)"

text \<open>
  The object after the body of the scenario loop has run for a scenario that does not fail,
  and after it has run for one whose solver finds no primal solution.
\<close>

definition scenario_done :: "Environment \<Rightarrow> nat \<Rightarrow> InvestmentFunction \<Rightarrow> InvestmentFunction" where
  "scenario_done env scenario s =
     s\<lparr> is_locked := replicate (length (v_Block s)) False,
        scenarios_solved := scenarios_solved s @ [scenario],
        f_status := solver_status (solve env scenario),
        v_linearization :=
          (if f_compute_linearization s
           then map (\<lambda>i. v_linearization s ! i + the (linearization_update (solve env scenario)) i)
                  [0 ..< length (v_linearization s)]
           else v_linearization s) \<rparr>"

definition scenario_failed :: "Environment \<Rightarrow> nat \<Rightarrow> InvestmentFunction \<Rightarrow> InvestmentFunction" where
  "scenario_failed env scenario s =
     s\<lparr> is_locked := replicate (length (v_Block s)) False,
        scenarios_solved := scenarios_solved s @ [scenario] \<rparr>"

text \<open>
  The object after the bodies of a list of scenarios, none of which fails.
\<close>

fun scenarios_done :: "Environment \<Rightarrow> nat list \<Rightarrow> InvestmentFunction \<Rightarrow> InvestmentFunction" where
  "scenarios_done env [] s = s"
| "scenarios_done env (scenario # rest) s = scenarios_done env rest (scenario_done env scenario s)"

text \<open>
  Two objects agree on everything but the fields the body of the scenario loop writes.
\<close>

definition scenario_frame :: "InvestmentFunction \<Rightarrow> InvestmentFunction \<Rightarrow> bool" where
  "scenario_frame s s' \<longleftrightarrow>
     s'\<lparr> is_locked := [], scenarios_solved := [], f_status := kUnEval, v_linearization := [] \<rparr>
     = s\<lparr> is_locked := [], scenarios_solved := [], f_status := kUnEval, v_linearization := [] \<rparr>"

text \<open>
  The object after the loop of the investment term has handled the first \<open>k\<close> assets.
\<close>

definition partial_term :: "InvestmentFunction \<Rightarrow> nat \<Rightarrow> InvestmentFunction" where
  "partial_term s k =
     s\<lparr> f_value := dbl_plus (f_value s) (Fin (\<Sum>i \<leftarrow> [0 ..< k]. investment_term s i)),
        v_linearization :=
          map (\<lambda>i. if i < k then v_linearization s ! i + investment_slope s i
                    else v_linearization s ! i) [0 ..< length (v_linearization s)] \<rparr>"

text \<open>
  The sub-Blocks as \<^verbatim>\<open>compute\<close> locks them and lends its identity, which of them the function
  owned at entry, and the object at the start of the scenario loop.
\<close>

definition lent :: "InvestmentFunction \<Rightarrow> SubBlock list" where
  "lent p = lend_identity (f_id p) (map (lock_block (f_id p)) (v_Block p))"

definition owned_at_entry :: "InvestmentFunction \<Rightarrow> bool list" where
  "owned_at_entry p = map (\<lambda>b. owner b = Some (f_id p)) (v_Block p)"

definition started :: "InvestmentFunction \<Rightarrow> InvestmentFunction" where
  "started p = p\<lparr> v_Block := lent p, f_blocks_are_updated := True, f_value := Fin 0,
                  f_ignore_modifications := True, f_status := kUnEval \<rparr>"

text \<open>
  The value of \<^verbatim>\<open>worst_value\<close> when there is a first sub-Block with a stage.
\<close>

definition worst_of :: "InvestmentFunction \<Rightarrow> dbl" where
  "worst_of p = (if objective_sense (hd (v_Block p)) = eMin then PosInf else NegInf)"

text \<open>
  An inner solver that finds a primal solution and no dual solution, so that
  \<^verbatim>\<open>update_linearization\<close> throws, and one that finds no primal solution in any scenario.
\<close>

definition no_dual_environment :: Environment where
  "no_dual_environment =
     \<lparr> update_blocks_throws = False,
       solve = (\<lambda>scenario. \<lparr> solver_status = kOK, has_var_solution = True, solver_value = 0,
                             linearization_update = None \<rparr>) \<rparr>"

definition no_solution_environment :: Environment where
  "no_solution_environment =
     \<lparr> update_blocks_throws = False,
       solve = (\<lambda>scenario. \<lparr> solver_status = kError, has_var_solution = False, solver_value = 0,
                             linearization_update = None \<rparr>) \<rparr>"

section \<open>The state bridge between two stages (investment_solver.cpp)\<close>

text \<open>
  The classes of the Blocks come from the libraries the solver is linked with. A Block is
  modelled by its class, by the data of that class that the bridge reads or writes, and by
  its nested Blocks. A \<^verbatim>\<open>HydroUnitBlock\<close> has a number of generators, a time horizon, the flow
  rate of every generator at every time, and the initial flow rate of every generator; a
  \<^verbatim>\<open>ThermalUnitBlock\<close> has the active power of generator 0 at every time, an initial power
  and an initial up/down time; a \<^verbatim>\<open>BatteryUnitBlock\<close> has the active power of generator 0 and
  the storage level at every time, an initial power and an initial storage.
\<close>

record HydroUnit =
  hydro_number_generators :: nat
  hydro_time_horizon :: nat
  flow_rate :: "real list list"
  initial_flow_rate :: "real list"

record ThermalUnit =
  thermal_time_horizon :: nat
  thermal_active_power :: "real list"
  thermal_initial_power :: real
  init_updown_time :: int

record BatteryUnit =
  battery_time_horizon :: nat
  battery_active_power :: "real list"
  storage_level :: "real list"
  battery_initial_power :: real
  initial_storage :: real

datatype BlockData =
    UCBlock
  | HydroSystemUnitBlock
  | HydroUnitBlock HydroUnit
  | ThermalUnitBlock ThermalUnit
  | BatteryUnitBlock BatteryUnit
  | IntermittentUnitBlock
  | SlackUnitBlock
  | DCNetworkBlock
  | ECNetworkBlock

datatype Block = Block (block_data: BlockData) (nested_Blocks: "Block list")

text \<open>
  \<^verbatim>\<open>dynamic_cast\<close> to each of the three classes of units: \<open>None\<close> is the null pointer.
\<close>

fun as_hydro :: "BlockData \<Rightarrow> HydroUnit option" where
  "as_hydro (HydroUnitBlock unit) = Some unit"
| "as_hydro _ = None"

fun as_thermal :: "BlockData \<Rightarrow> ThermalUnit option" where
  "as_thermal (ThermalUnitBlock unit) = Some unit"
| "as_thermal _ = None"

fun as_battery :: "BlockData \<Rightarrow> BatteryUnit option" where
  "as_battery (BatteryUnitBlock unit) = Some unit"
| "as_battery _ = None"

text \<open>
  The index \<^verbatim>\<open>time_horizon - 1\<close>: the subtraction is one of \<^verbatim>\<open>Index\<close>, which is unsigned, so a
  time horizon of 0 gives the largest \<^verbatim>\<open>Index\<close>. Reading a vector at a position it does not
  have is undefined in the source, and an error here.
\<close>

definition last_time :: "nat \<Rightarrow> nat" where
  "last_time horizon = (if horizon = 0 then Inf_Index else horizon - 1)"

definition read_at :: "'a list \<Rightarrow> nat \<Rightarrow> error + 'a" where
  "read_at xs i = (if i < length xs then Inr (xs ! i) else Inl OutOfRange)"

text \<open>
  The loop of \<^verbatim>\<open>update_hydro_unit\<close> over the generators, from generator \<open>g\<close> on: it reads the
  flow rate of each generator at the last time of the previous unit.
\<close>

fun read_flow_rates :: "HydroUnit \<Rightarrow> nat list \<Rightarrow> error + real list" where
  "read_flow_rates previous_unit [] = Inr []"
| "read_flow_rates previous_unit (g # generators) =
     (case read_at (flow_rate previous_unit) g of
        Inl e \<Rightarrow> Inl e
      | Inr row \<Rightarrow>
          (case read_at row (last_time (hydro_time_horizon previous_unit)) of
             Inl e \<Rightarrow> Inl e
           | Inr v \<Rightarrow>
               (case read_flow_rates previous_unit generators of
                  Inl e \<Rightarrow> Inl e
                | Inr vs \<Rightarrow> Inr (v # vs))))"

text \<open>
  \<^verbatim>\<open>update_hydro_unit( previous_block , block , stage )\<close>. The result is the value the
  function returns together with the Block as the function leaves it.
\<close>

definition update_hydro_unit :: "BlockData \<Rightarrow> BlockData \<Rightarrow> error + (bool \<times> BlockData)" where
  "update_hydro_unit previous_block block =
     (case (as_hydro block, as_hydro previous_block) of
        (None, None) \<Rightarrow> Inr (False, block)
      | (None, Some _) \<Rightarrow> Inl StructureMismatch
      | (Some _, None) \<Rightarrow> Inl StructureMismatch
      | (Some unit, Some previous_unit) \<Rightarrow>
          if hydro_number_generators previous_unit \<noteq> hydro_number_generators unit
          then Inl StructureMismatch
          else (case read_flow_rates previous_unit [0 ..< hydro_number_generators previous_unit] of
                  Inl e \<Rightarrow> Inl e
                | Inr rates \<Rightarrow>
                    Inr (True, HydroUnitBlock (unit\<lparr> initial_flow_rate := rates \<rparr>))))"

text \<open>
  \<^verbatim>\<open>update_battery_unit( previous_block , block , stage )\<close>.
\<close>

definition update_battery_unit :: "BlockData \<Rightarrow> BlockData \<Rightarrow> error + (bool \<times> BlockData)" where
  "update_battery_unit previous_block block =
     (case (as_battery block, as_battery previous_block) of
        (None, None) \<Rightarrow> Inr (False, block)
      | (None, Some _) \<Rightarrow> Inl StructureMismatch
      | (Some _, None) \<Rightarrow> Inl StructureMismatch
      | (Some unit, Some previous_unit) \<Rightarrow>
          (if battery_time_horizon previous_unit = 0 then Inl OutOfRange
           else
             (case read_at (battery_active_power previous_unit)
                     (battery_time_horizon previous_unit - 1) of
                Inl e \<Rightarrow> Inl e
              | Inr initial_power_data \<Rightarrow>
                  (case read_at (storage_level previous_unit)
                          (battery_time_horizon previous_unit - 1) of
                     Inl e \<Rightarrow> Inl e
                   | Inr initial_storage_data \<Rightarrow>
                       Inr (True, BatteryUnitBlock
                              (unit\<lparr> battery_initial_power := initial_power_data,
                                     initial_storage := initial_storage_data \<rparr>))))))"

text \<open>
  \<^verbatim>\<open>update_thermal_unit( sddp_block , previous_block , block , stage )\<close>. The initial up/down
  time is set only when \<^verbatim>\<open>simulate_investment && single_scenario\<close> holds; it is computed by
  \<^verbatim>\<open>compute_init_up_down_time\<close>, which walks back through the earlier stages of the
  \<^verbatim>\<open>SDDPBlock\<close>. Both are a parameter here: \<open>None\<close> when the condition does not hold, and
  otherwise what \<^verbatim>\<open>compute_init_up_down_time\<close> gives for the two units.
\<close>

type_synonym up_down_time = "(ThermalUnit \<Rightarrow> ThermalUnit \<Rightarrow> error + int) option"

definition update_thermal_unit ::
  "up_down_time \<Rightarrow> BlockData \<Rightarrow> BlockData \<Rightarrow> error + (bool \<times> BlockData)" where
  "update_thermal_unit compute_init_up_down_time previous_block block =
     (case (as_thermal block, as_thermal previous_block) of
        (None, None) \<Rightarrow> Inr (False, block)
      | (None, Some _) \<Rightarrow> Inl StructureMismatch
      | (Some _, None) \<Rightarrow> Inl StructureMismatch
      | (Some unit, Some previous_unit) \<Rightarrow>
          (case (case compute_init_up_down_time of
                   None \<Rightarrow> Inr unit
                 | Some f \<Rightarrow>
                     (case f previous_unit unit of
                        Inl e \<Rightarrow> Inl e
                      | Inr t \<Rightarrow> Inr (unit\<lparr> init_updown_time := t \<rparr>))) of
             Inl e \<Rightarrow> Inl e
           | Inr unit' \<Rightarrow>
               (if thermal_time_horizon previous_unit = 0 then Inl OutOfRange
                else
                  (case read_at (thermal_active_power previous_unit)
                          (thermal_time_horizon previous_unit - 1) of
                     Inl e \<Rightarrow> Inl e
                   | Inr active_power_data \<Rightarrow>
                       Inr (True, ThermalUnitBlock
                              (unit'\<lparr> thermal_initial_power := active_power_data \<rparr>))))))"

text \<open>
  The last statement of the loop of \<^verbatim>\<open>callback\<close>:
  \<^verbatim>\<open>update_hydro_unit( ... ) || update_thermal_unit( ... ) || update_battery_unit( ... )\<close>.
\<close>

definition update_unit :: "up_down_time \<Rightarrow> BlockData \<Rightarrow> BlockData \<Rightarrow> error + BlockData" where
  "update_unit compute_init_up_down_time previous_block block =
     (case update_hydro_unit previous_block block of
        Inl e \<Rightarrow> Inl e
      | Inr (updated, block') \<Rightarrow>
          if updated then Inr block'
          else
            (case update_thermal_unit compute_init_up_down_time previous_block block' of
               Inl e \<Rightarrow> Inl e
             | Inr (updated, block'') \<Rightarrow>
                 if updated then Inr block''
                 else
                   (case update_battery_unit previous_block block'' of
                      Inl e \<Rightarrow> Inl e
                    | Inr (updated, block''') \<Rightarrow> Inr block''')))"

text \<open>
  The Blocks of stage \<open>t + 1\<close> are written in place while the queue still points to them. A
  path (the positions of the nested Blocks from the root) stands for the pointer:
  \<open>subtree\<close> follows a path, and \<open>set_data\<close> writes the data of the Block at the end of a path.
\<close>

primrec subtree :: "nat list \<Rightarrow> Block \<Rightarrow> Block option" where
  "subtree [] block = Some block"
| "subtree (i # path) block =
     (if i < length (nested_Blocks block) then subtree path (nested_Blocks block ! i) else None)"

primrec set_data :: "nat list \<Rightarrow> BlockData \<Rightarrow> Block \<Rightarrow> Block" where
  "set_data [] d block = Block d (nested_Blocks block)"
| "set_data (i # path) d block =
     Block (block_data block)
       ((nested_Blocks block)[i := set_data path d (nested_Blocks block ! i)])"

definition data_at :: "nat list \<Rightarrow> Block \<Rightarrow> BlockData option" where
  "data_at path block = map_option block_data (subtree path block)"

fun number_of_Blocks :: "Block \<Rightarrow> nat" where
  "number_of_Blocks (Block d blocks) = Suc (sum_list (map number_of_Blocks blocks))"

text \<open>
  The loop of \<^verbatim>\<open>callback\<close>. The two queues of the source are pushed and popped together, so
  they are one queue of pairs here; each pair comes with the path of its Block of stage
  \<open>t + 1\<close>. The last argument is the tree of stage \<open>t + 1\<close> as written so far.
\<close>

definition nested_pairs :: "nat list \<Rightarrow> Block \<Rightarrow> Block \<Rightarrow> (nat list \<times> Block \<times> Block) list" where
  "nested_pairs path block previous_block =
     map (\<lambda>i. (path @ [i], nested_Blocks block ! i, nested_Blocks previous_block ! i))
       [0 ..< length (nested_Blocks block)]"

function callback_loop ::
  "up_down_time \<Rightarrow> (nat list \<times> Block \<times> Block) list \<Rightarrow> Block \<Rightarrow> error + Block" where
  "callback_loop up [] uc_block = Inr uc_block"
| "callback_loop up ((path, block, previous_block) # blocks) uc_block =
     (if length (nested_Blocks block) \<noteq> length (nested_Blocks previous_block)
      then Inl StructureMismatch
      else
        (case update_unit up (block_data previous_block) (block_data block) of
           Inl e \<Rightarrow> Inl e
         | Inr d \<Rightarrow>
             callback_loop up (blocks @ nested_pairs path block previous_block)
               (set_data path d uc_block)))"
  by pat_completeness auto

text \<open>
  Every step takes one Block from the queue and adds the Blocks nested in it, so the number
  of Blocks in and below the queue decreases.
\<close>

termination callback_loop
proof (relation "measure (\<lambda>(up, blocks, uc_block).
        sum_list (map (\<lambda>(path, block, previous_block). number_of_Blocks block) blocks))")
  show "wf (measure (\<lambda>(up, blocks, uc_block).
        sum_list (map (\<lambda>(path, block, previous_block). number_of_Blocks block) blocks)))"
    by simp
next
  fix up :: up_down_time and path block previous_block
    and blocks :: "(nat list \<times> Block \<times> Block) list" and uc_block x2
  have "map (\<lambda>i. number_of_Blocks (nested_Blocks block ! i)) [0 ..< length (nested_Blocks block)]
        = map number_of_Blocks (nested_Blocks block)"
    by (rule nth_equalityI; simp)
  then have "sum_list (map (\<lambda>(path, block, previous_block). number_of_Blocks block)
      (nested_pairs path block previous_block)) < number_of_Blocks block"
    by (cases block) (simp add: nested_pairs_def o_def)
  then show "((up, blocks @ nested_pairs path block previous_block, set_data path x2 uc_block),
         up, (path, block, previous_block) # blocks, uc_block)
       \<in> measure (\<lambda>(up, blocks, uc_block).
        sum_list (map (\<lambda>(path, block, previous_block). number_of_Blocks block) blocks))"
    by simp
qed

text \<open>
  \<^verbatim>\<open>callback( sddp_block , stage )\<close>, with the two \<^verbatim>\<open>UCBlock\<close>s of stages \<open>stage - 1\<close> and
  \<open>stage\<close> that \<^verbatim>\<open>get_uc_block\<close> finds in the \<^verbatim>\<open>SDDPBlock\<close>.
\<close>

definition callback :: "up_down_time \<Rightarrow> nat \<Rightarrow> Block \<Rightarrow> Block \<Rightarrow> error + Block" where
  "callback up stage previous_uc_block uc_block =
     (if stage = 0 then Inr uc_block
      else callback_loop up [([], uc_block, previous_uc_block)] uc_block)"

text \<open>
  What the bridge is to write into a hydro unit: for every generator, the flow rate at the
  last time of the unit of the previous stage.
\<close>

definition last_flow_rates :: "HydroUnit \<Rightarrow> real list" where
  "last_flow_rates previous_unit =
     map (\<lambda>g. flow_rate previous_unit ! g ! (hydro_time_horizon previous_unit - 1))
       [0 ..< hydro_number_generators previous_unit]"

text \<open>
  Two matched Blocks are of the same kind for the bridge: both are hydro units, with the same
  number of generators, or both are thermal units, or both are battery units, or neither is
  any of these. Two trees have the same structure when matched Blocks are of the same kind and
  have the same number of nested Blocks.
\<close>

definition same_kind :: "BlockData \<Rightarrow> BlockData \<Rightarrow> bool" where
  "same_kind block previous_block \<longleftrightarrow>
     (case (as_hydro block, as_hydro previous_block) of
        (Some unit, Some previous_unit) \<Rightarrow>
          hydro_number_generators unit = hydro_number_generators previous_unit
      | (None, None) \<Rightarrow>
          (as_thermal block = None \<longleftrightarrow> as_thermal previous_block = None) \<and>
          (as_battery block = None \<longleftrightarrow> as_battery previous_block = None)
      | _ \<Rightarrow> False)"

function same_structure :: "Block \<Rightarrow> Block \<Rightarrow> bool" where
  "same_structure (Block d blocks) (Block previous_d previous_blocks) \<longleftrightarrow>
     same_kind d previous_d \<and> length blocks = length previous_blocks \<and>
     list_all (\<lambda>i. same_structure (blocks ! i) (previous_blocks ! i)) [0 ..< length blocks]"
  by pat_completeness auto

termination same_structure
proof (relation "measure (\<lambda>(block, previous_block). number_of_Blocks block)")
  show "wf (measure (\<lambda>(block, previous_block). number_of_Blocks block))" by simp
next
  fix d previous_d :: BlockData and blocks previous_blocks :: "Block list" and i
  assume "i \<in> set [0 ..< length blocks]"
  then have "map number_of_Blocks blocks ! i \<le> sum_list (map number_of_Blocks blocks)"
    by (intro elem_le_sum_list) simp
  then show "((blocks ! i, previous_blocks ! i), Block d blocks, Block previous_d previous_blocks)
       \<in> measure (\<lambda>(block, previous_block). number_of_Blocks block)"
    using \<open>i \<in> set [0 ..< length blocks]\<close> by simp
qed

text \<open>
  The data of the previous stage can be read: every unit has a time horizon of at least 1,
  and its vectors reach the last time. The computation of the initial up/down time does not
  fail.
\<close>

definition unit_readable :: "BlockData \<Rightarrow> bool" where
  "unit_readable previous_block =
     (case previous_block of
        HydroUnitBlock previous_unit \<Rightarrow>
          0 < hydro_time_horizon previous_unit \<and>
          hydro_number_generators previous_unit \<le> length (flow_rate previous_unit) \<and>
          list_all (\<lambda>row. hydro_time_horizon previous_unit \<le> length row)
            (take (hydro_number_generators previous_unit) (flow_rate previous_unit))
      | ThermalUnitBlock previous_unit \<Rightarrow>
          0 < thermal_time_horizon previous_unit \<and>
          thermal_time_horizon previous_unit \<le> length (thermal_active_power previous_unit)
      | BatteryUnitBlock previous_unit \<Rightarrow>
          0 < battery_time_horizon previous_unit \<and>
          battery_time_horizon previous_unit \<le> length (battery_active_power previous_unit) \<and>
          battery_time_horizon previous_unit \<le> length (storage_level previous_unit)
      | _ \<Rightarrow> True)"

fun readable :: "Block \<Rightarrow> bool" where
  "readable (Block previous_d previous_blocks) \<longleftrightarrow>
     unit_readable previous_d \<and> list_all readable previous_blocks"

definition never_fails :: "up_down_time \<Rightarrow> bool" where
  "never_fails up =
     (case up of None \<Rightarrow> True
      | Some f \<Rightarrow> \<forall>previous_unit unit. \<exists>t. f previous_unit unit = Inr t)"

text \<open>
  Example trees: a \<^verbatim>\<open>UCBlock\<close> with one nested Block; a hydro unit with \<open>n\<close> generators, three
  times and given flow rates; the unit of two generators before it is solved, and the same
  unit solved at stage \<open>t\<close>, with the flow rates 3 and 6 at the last time.
\<close>

definition uc_with :: "BlockData \<Rightarrow> Block" where
  "uc_with unit = Block UCBlock [Block unit []]"

definition hydro_example :: "nat \<Rightarrow> real list list \<Rightarrow> BlockData" where
  "hydro_example n rates =
     HydroUnitBlock \<lparr> hydro_number_generators = n, hydro_time_horizon = 3, flow_rate = rates,
                      initial_flow_rate = replicate n 0 \<rparr>"

text \<open>
  What holds of the queue at every step of the loop: no path of the queue is a prefix of
  another one, and every path leads to its Block in the tree as written so far.
\<close>

fun is_prefix :: "nat list \<Rightarrow> nat list \<Rightarrow> bool" where
  "is_prefix [] ys = True"
| "is_prefix (x # xs) [] = False"
| "is_prefix (x # xs) (y # ys) = (x = y \<and> is_prefix xs ys)"

definition apart :: "nat list list \<Rightarrow> bool" where
  "apart paths \<longleftrightarrow>
     distinct paths \<and> (\<forall>x \<in> set paths. \<forall>y \<in> set paths. is_prefix x y \<longrightarrow> x = y)"

definition points_into :: "(nat list \<times> Block \<times> Block) list \<Rightarrow> Block \<Rightarrow> bool" where
  "points_into blocks uc_block \<longleftrightarrow>
     (\<forall>e \<in> set blocks. subtree (fst e) uc_block = Some (fst (snd e)))"

definition empty_hydro :: BlockData where
  "empty_hydro = hydro_example 2 [[0, 0, 0], [0, 0, 0]]"

definition solved_hydro :: BlockData where
  "solved_hydro = hydro_example 2 [[1, 2, 3], [4, 5, 6]]"

section \<open>Theorems about the global pool\<close>

text \<open>
  Claim C1. After a successful \<^verbatim>\<open>store_combination_of_linearizations(L, name)\<close> the
  coefficients read back at \<open>name\<close> should be the weighted sum of the coefficients of all
  summands, and the constant the weighted sum of their constants. The code evaluated at the
  spec's own example (names 0 and 1 diagonal with coefficients (1,0) and (0,1), constants
  \<open>a\<close> and \<open>b\<close>, weights 0.5 and 0.5, stored under name 2) succeeds and stores the right
  constant \<open>0.5a + 0.5b\<close>, but the coefficients (0, 0.5) instead of (0.5, 0.5): the first
  summand only sizes the accumulator and is never added to it.
\<close>

theorem store_combination_first_summand_lost:
  "\<exists>P'. store_combination_of_linearizations [(0, 1/2), (1, 1/2)] 2 (1/1000000)
          (example_pool a b) = Inr P'
      \<and> pool_get_linearization_coefficients P' (0, 2) 2 = Inr [0, 1/2]
      \<and> pool_get_linearization_constant P' 2 = Inr (Fin (a / 2 + b / 2))
      \<and> is_diagonal P' ! 2"
  by (simp add: store_combination_of_linearizations_def pool_size_def combine_def store_def
      example_pool_def pool_get_linearization_coefficients_def fv_add_scaled_def
      pool_get_linearization_constant_def upt_rec)

text \<open>
  Claim C10. \<^verbatim>\<open>is_convex()\<close> returns true and \<^verbatim>\<open>is_concave()\<close> returns false in every
  state of the function, whatever the inner Block.
\<close>

theorem is_convex_not_concave: "is_convex s \<and> \<not> is_concave s"
  by (simp add: is_convex_def is_concave_def)

subsection \<open>Which combinations are rejected\<close>

lemma combination_loop_Inl:
  assumes "summands_stored P L m" "cs = [] \<or> length cs = m"
  shows "(\<exists>(n, c) \<in> set L. c < - tol) \<Longrightarrow> combination_loop P tol L (d, cs, k, sd) = Inl InvalidCoefficient"
  using assms
proof (induction L arbitrary: d cs k sd)
  case Nil
  then show ?case by simp
next
  case (Cons a L)
  obtain n c where a: "a = (n, c)" by (cases a)
  have st: "summands_stored P L m" using Cons.prems(2) by (auto simp: summands_stored_def)
  have n: "n < pool_size P" "length (linearization_coefficients P ! n) = m"
     "length (linearization_coefficients P) = pool_size P" "length (is_diagonal P) = pool_size P"
    using Cons.prems(2) by (auto simp: summands_stored_def a)
  show ?case
  proof (cases "c < - tol")
    case True
    then show ?thesis by (simp add: a)
  next
    case False
    with Cons.prems(1) have ex: "\<exists>(n, c) \<in> set L. c < - tol" by (auto simp: a)
    show ?thesis
    proof (cases "cs = []")
      case True
      then show ?thesis using False n ex st Cons.IH[of "replicate m 0"]
        by (simp add: a pool_size_def)
    next
      case ne: False
      then have "length cs = m" using Cons.prems(3) by simp
      then show ?thesis using False n ex st ne Cons.IH[of "map (\<lambda>i. cs ! i + c * linearization_coefficients P ! n ! i) [0..<m]"]
        by (simp add: a pool_size_def combine_def)
    qed
  qed
qed

lemma combination_loop_Inr:
  assumes "summands_stored P L m" "cs = [] \<or> length cs = m" "\<not> (\<exists>(n, c) \<in> set L. c < - tol)"
  shows "\<exists>cs' k'. combination_loop P tol L (d, cs, k, sd) =
            Inr (d \<or> some_summand_diagonal P L, cs', k', sd + coeff_sum_of_diagonal P L)"
  using assms
proof (induction L arbitrary: d cs k sd)
  case Nil
  then show ?case by (simp add: some_summand_diagonal_def coeff_sum_of_diagonal_def)
next
  case (Cons a L)
  obtain n c where a: "a = (n, c)" by (cases a)
  have st: "summands_stored P L m" using Cons.prems(1) by (auto simp: summands_stored_def)
  have n: "n < pool_size P" "length (linearization_coefficients P ! n) = m"
     "length (linearization_coefficients P) = pool_size P" "length (is_diagonal P) = pool_size P"
    using Cons.prems(1) by (auto simp: summands_stored_def a)
  have c: "\<not> c < - tol" and nex: "\<not> (\<exists>(n, c) \<in> set L. c < - tol)"
    using Cons.prems(3) by (auto simp: a)
  have sd: "some_summand_diagonal P (a # L) = (is_diagonal P ! n \<or> some_summand_diagonal P L)"
    by (simp add: some_summand_diagonal_def a)
  have cs: "coeff_sum_of_diagonal P (a # L) = (if is_diagonal P ! n then c else 0) + coeff_sum_of_diagonal P L"
    by (simp add: coeff_sum_of_diagonal_def a)
  show ?case
  proof (cases "cs = []")
    case True
    from Cons.IH[OF st _ nex, of "replicate m 0" "is_diagonal P ! n \<or> d"
        "fv_add_scaled k c (linearization_constants P ! n)"
        "if is_diagonal P ! n then sd + c else sd"]
    show ?thesis using True c n unfolding sd cs
      by (auto simp add: a pool_size_def add.assoc)
  next
    case ne: False
    then have len: "length cs = m" using Cons.prems(2) by simp
    from Cons.IH[OF st _ nex, of "map (\<lambda>i. cs ! i + c * linearization_coefficients P ! n ! i) [0..<m]"
        "is_diagonal P ! n \<or> d"
        "fv_add_scaled k c (linearization_constants P ! n)"
        "if is_diagonal P ! n then sd + c else sd"]
    show ?thesis using ne len c n unfolding sd cs
      by (auto simp add: a pool_size_def combine_def add.assoc)
  qed
qed

lemma store_combination_inside_guards:
  assumes "name < pool_size P" and "L \<noteq> []" and "summands_stored P L m"
  shows "((\<exists>e. store_combination_of_linearizations L name tol P = Inl e)
            \<longleftrightarrow> multiplier_rules_violated P L tol)
       \<and> (\<forall>e. store_combination_of_linearizations L name tol P = Inl e
            \<longrightarrow> e = InvalidCoefficient \<or> e = NonConvexCombination)
       \<and> (\<forall>P'. store_combination_of_linearizations L name tol P = Inr P'
            \<longrightarrow> is_diagonal P' ! name = some_summand_diagonal P L)"
proof (cases "\<exists>(n, c) \<in> set L. c < - tol")
  case True
  have "combination_loop P tol L (False, [], Fin 0, 0) = Inl InvalidCoefficient"
    using combination_loop_Inl[OF assms(3) _ True, of "[]"] by simp
  then have "store_combination_of_linearizations L name tol P = Inl InvalidCoefficient"
    using assms(1,2) by (simp add: store_combination_of_linearizations_def)
  then show ?thesis using True by (simp add: multiplier_rules_violated_def)
next
  case False
  obtain cs' k' where loop: "combination_loop P tol L (False, [], Fin 0, 0)
       = Inr (some_summand_diagonal P L, cs', k', coeff_sum_of_diagonal P L)"
    using combination_loop_Inr[OF assms(3) _ False, of "[]" False "Fin 0" 0] by auto
  have len: "name < length (linearization_coefficients P)" "name < length (is_diagonal P)"
    using assms(1,3) by (simp_all add: summands_stored_def)
  show ?thesis
  proof (cases "some_summand_diagonal P L \<and>
      \<bar>1 - coeff_sum_of_diagonal P L\<bar> > tol * real (length L)")
    case True
    then have "store_combination_of_linearizations L name tol P = Inl NonConvexCombination"
      using assms(1,2) loop by (simp add: store_combination_of_linearizations_def)
    then show ?thesis using True by (simp add: multiplier_rules_violated_def)
  next
    case nv: False
    then have "store_combination_of_linearizations L name tol P
          = store k' cs' name (some_summand_diagonal P L) P"
      using assms(1,2) loop by (auto simp add: store_combination_of_linearizations_def)
    then show ?thesis using nv False assms(1) len
      by (auto simp add: multiplier_rules_violated_def store_def)
  qed
qed

text \<open>
  Claim C7 (as amended). The call is rejected as an invalid name whenever \<open>name\<close> is not a
  name of the pool, and as an empty combination whenever the name is valid and the
  combination is empty, whatever the multipliers. For a valid name, a nonempty combination
  \<open>L\<close> and a pool that holds every summand of \<open>L\<close>, \<^verbatim>\<open>store_combination_of_linearizations\<close>
  fails if and only if some multiplier is below \<^verbatim>\<open>-AAccMlt\<close>, or some summand is diagonal and
  the sum of the diagonal multipliers differs from 1 by more than \<^verbatim>\<open>AAccMlt\<close> times the number
  of summands; it fails with no other error; and when it succeeds the stored linearization is
  diagonal exactly when some summand is diagonal.
\<close>

theorem store_combination_fails_iff_rules_violated:
  "(pool_size P \<le> name
      \<longrightarrow> store_combination_of_linearizations L name tol P = Inl InvalidName)
   \<and> (name < pool_size P \<and> L = []
      \<longrightarrow> store_combination_of_linearizations L name tol P = Inl EmptyCombination)
   \<and> (name < pool_size P \<and> L \<noteq> [] \<and> summands_stored P L m
      \<longrightarrow> ((\<exists>e. store_combination_of_linearizations L name tol P = Inl e)
             \<longleftrightarrow> multiplier_rules_violated P L tol)
        \<and> (\<forall>e. store_combination_of_linearizations L name tol P = Inl e
             \<longrightarrow> e = InvalidCoefficient \<or> e = NonConvexCombination)
        \<and> (\<forall>P'. store_combination_of_linearizations L name tol P = Inr P'
             \<longrightarrow> is_diagonal P' ! name = some_summand_diagonal P L))"
proof -
  have invalid_name: "pool_size P \<le> name
      \<longrightarrow> store_combination_of_linearizations L name tol P = Inl InvalidName"
    by (simp add: store_combination_of_linearizations_def)
  have empty: "name < pool_size P \<and> L = []
      \<longrightarrow> store_combination_of_linearizations L name tol P = Inl EmptyCombination"
    by (simp add: store_combination_of_linearizations_def)
  have inside: "name < pool_size P \<and> L \<noteq> [] \<and> summands_stored P L m
      \<longrightarrow> ((\<exists>e. store_combination_of_linearizations L name tol P = Inl e)
             \<longleftrightarrow> multiplier_rules_violated P L tol)
        \<and> (\<forall>e. store_combination_of_linearizations L name tol P = Inl e
             \<longrightarrow> e = InvalidCoefficient \<or> e = NonConvexCombination)
        \<and> (\<forall>P'. store_combination_of_linearizations L name tol P = Inr P'
             \<longrightarrow> is_diagonal P' ! name = some_summand_diagonal P L)"
    by (intro impI, elim conjE) (rule store_combination_inside_guards)
  show ?thesis by (rule conjI[OF invalid_name conjI[OF empty inside]])
qed

text \<open>
  The theorem at the spec's example 5: weights 0.5 and 0.4 fail, weights 0.5 and 0.5 succeed;
  the name 7 is rejected in a pool of size 4, and the empty combination under the name 0.
\<close>

theorem store_combination_fails_iff_rules_violated_witness:
  "3 < pool_size (example_pool 7 9) \<and> [(0, 1/2), (1, 2/5)] \<noteq> ([] :: LinearCombination)
   \<and> summands_stored (example_pool 7 9) [(0, 1/2), (1, 2/5)] 2
   \<and> multiplier_rules_violated (example_pool 7 9) [(0, 1/2), (1, 2/5)] (1/1000000)
   \<and> (\<exists>e. store_combination_of_linearizations [(0, 1/2), (1, 2/5)] 3 (1/1000000)
             (example_pool 7 9) = Inl e)
   \<and> summands_stored (example_pool 7 9) [(0, 1/2), (1, 1/2)] 2
   \<and> \<not> multiplier_rules_violated (example_pool 7 9) [(0, 1/2), (1, 1/2)] (1/1000000)
   \<and> (\<exists>P'. store_combination_of_linearizations [(0, 1/2), (1, 1/2)] 3 (1/1000000)
             (example_pool 7 9) = Inr P' \<and> is_diagonal P' ! 3)
   \<and> pool_size (example_pool 7 9) \<le> 7
   \<and> store_combination_of_linearizations [(1, 1/2)] 7 (1/1000000) (example_pool 7 9)
         = Inl InvalidName
   \<and> 0 < pool_size (example_pool 7 9)
   \<and> store_combination_of_linearizations [] 0 (1/1000000) (example_pool 7 9)
         = Inl EmptyCombination"
proof -
  have h1: "3 < pool_size (example_pool 7 9)" by (simp add: example_pool_def pool_size_def)
  have h2: "[(0, 1/2), (1, 2/5)] \<noteq> ([] :: LinearCombination)" by simp
  have h3: "summands_stored (example_pool 7 9) [(0, 1/2), (1, 2/5)] 2"
    by (simp add: summands_stored_def example_pool_def pool_size_def)
  have v: "multiplier_rules_violated (example_pool 7 9) [(0, 1/2), (1, 2/5)] (1/1000000)"
    by (simp add: multiplier_rules_violated_def some_summand_diagonal_def
        coeff_sum_of_diagonal_def example_pool_def)
  have g2: "[(0, 1/2), (1, 1/2)] \<noteq> ([] :: LinearCombination)" by simp
  have g3: "summands_stored (example_pool 7 9) [(0, 1/2), (1, 1/2)] 2"
    by (simp add: summands_stored_def example_pool_def pool_size_def)
  have d: "some_summand_diagonal (example_pool 7 9) [(0, 1/2), (1, 1/2)]"
    by (simp add: some_summand_diagonal_def example_pool_def)
  have nv: "\<not> multiplier_rules_violated (example_pool 7 9) [(0, 1/2), (1, 1/2)] (1/1000000)"
    by (simp add: multiplier_rules_violated_def some_summand_diagonal_def
        coeff_sum_of_diagonal_def example_pool_def)
  have fails: "\<exists>e. store_combination_of_linearizations [(0, 1/2), (1, 2/5)] 3 (1/1000000)
             (example_pool 7 9) = Inl e"
    using store_combination_fails_iff_rules_violated[where name = 3 and P = "example_pool 7 9"
        and L = "[(0, 1/2), (1, 2/5)]" and tol = "1/1000000" and m = 2] h1 h2 h3 v by blast
  have ok: "\<exists>P'. store_combination_of_linearizations [(0, 1/2), (1, 1/2)] 3 (1/1000000)
             (example_pool 7 9) = Inr P' \<and> is_diagonal P' ! 3"
    using store_combination_fails_iff_rules_violated[where name = 3 and P = "example_pool 7 9"
        and L = "[(0, 1/2), (1, 1/2)]" and tol = "1/1000000" and m = 2] h1 g2 g3 nv d
    by (cases "store_combination_of_linearizations [(0, 1/2), (1, 1/2)] 3 (1/1000000)
              (example_pool 7 9)") auto
  have n7: "pool_size (example_pool 7 9) \<le> 7" and n0: "0 < pool_size (example_pool 7 9)"
    by (simp_all add: example_pool_def pool_size_def)
  have invalid: "store_combination_of_linearizations [(1, 1/2)] 7 (1/1000000) (example_pool 7 9)
          = Inl InvalidName"
    using store_combination_fails_iff_rules_violated[where name = 7 and P = "example_pool 7 9"
        and L = "[(1, 1/2)]" and tol = "1/1000000"] n7 by blast
  have empty: "store_combination_of_linearizations [] 0 (1/1000000) (example_pool 7 9)
          = Inl EmptyCombination"
    using store_combination_fails_iff_rules_violated[where name = 0 and P = "example_pool 7 9"
        and L = "[]" and tol = "1/1000000"] n0 by blast
  show ?thesis using h1 h2 h3 v fails g3 nv ok n7 invalid n0 empty by blast
qed

text \<open>
  Claim C7 as stated, without the two guards, fails: an empty combination is rejected although
  no multiplier rule is broken, and an invalid name is rejected as such before any multiplier
  is looked at.
\<close>

theorem store_combination_guards_counterexample:
  "store_combination_of_linearizations [] 3 (1/1000000) (example_pool 7 9) = Inl EmptyCombination
   \<and> \<not> multiplier_rules_violated (example_pool 7 9) [] (1/1000000)
   \<and> store_combination_of_linearizations [(0, -1)] 4 (1/1000000) (example_pool 7 9) = Inl InvalidName
   \<and> multiplier_rules_violated (example_pool 7 9) [(0, -1)] (1/1000000)"
  by (simp add: store_combination_of_linearizations_def multiplier_rules_violated_def
      some_summand_diagonal_def example_pool_def pool_size_def)

section \<open>Theorems about the removal of variables\<close>

lemma compact_scan_length:
  "compact_scan x nit xit i = Inr (x', xit', i') \<Longrightarrow> length x' = length x"
  by (induction x nit xit i rule: compact_scan.induct) (auto split: if_splits)

lemma compact_tail_length: "length (compact_tail x xit i) = length x"
proof (induction x xit i rule: compact_tail.induct)
  case (1 x xit i)
  show ?case
  proof (cases "i < length x")
    case True
    then show ?thesis using 1 by (subst compact_tail.simps) simp
  next
    case False
    then show ?thesis by (subst compact_tail.simps) simp
  qed
qed

lemma compact_length:
  "compact x indices = Inr y \<Longrightarrow> length y = length x - length indices"
  by (auto simp: compact_def compact_tail_length Let_def
      split: list.splits sum.splits if_splits dest!: compact_scan_length)



lemma erase_range_Inr:
  "erase_range a b xs = Inr ys \<longleftrightarrow> b \<le> length xs \<and> ys = take a xs @ drop b xs"
  by (auto simp: erase_range_def)

lemma remove_variables_range_result:
  assumes "remove_variables_range rng s = Inr s'"
  shows "v_A s' = v_A s"
    and "length (v_x s') = length (v_x s) - (min (snd rng) (length (v_x s)) - fst rng)"
    and "descriptors_match s \<Longrightarrow> descriptors_match s'"
proof -
  define f where "f = fst rng"
  define sd where "sd = min (snd rng) (length (v_x s))"
  have sdle: "sd \<le> length (v_x s)" by (simp add: sd_def)
  consider (none) "sd \<le> f" | (all) "\<not> sd \<le> f" "f = 0 \<and> sd = length (v_x s)"
    | (some) "\<not> sd \<le> f" "\<not> (f = 0 \<and> sd = length (v_x s))" by blast
  then have "v_A s' = v_A s \<and> length (v_x s') = length (v_x s) - (sd - f)
     \<and> (descriptors_match s \<longrightarrow> descriptors_match s')"
  proof cases
    case none
    then have "s' = s" using assms
      by (simp add: remove_variables_range_def Let_def f_def sd_def)
    then show ?thesis using none by simp
  next
    case all
    then have "s' = s\<lparr> f_blocks_are_updated := False, v_x := [], v_asset_indices := [],
                      v_asset_type := [], v_cost := [], v_disinvestment_cost := [] \<rparr>"
      using assms by (simp add: remove_variables_range_def Let_def f_def sd_def)
    then show ?thesis using all by (simp add: descriptors_match_def)
  next
    case some
    from assms some obtain ai aty c d where
      e: "erase_range f sd (v_asset_indices s) = Inr ai"
         "erase_range f sd (v_asset_type s) = Inr aty"
         "erase_range f sd (v_cost s) = Inr c"
         "erase_range f sd (v_disinvestment_cost s) = Inr d"
      and s': "s' = s\<lparr> f_blocks_are_updated := False,
                        v_x := take f (v_x s) @ drop sd (v_x s),
                        v_asset_indices := ai, v_asset_type := aty,
                        v_cost := c, v_disinvestment_cost := d \<rparr>"
      unfolding remove_variables_range_def Let_def f_def[symmetric] sd_def[symmetric]
      by (simp split: sum.splits)
    have fl: "f < sd" using some by simp
    show ?thesis using e fl sdle unfolding s'
      by (auto simp: erase_range_Inr descriptors_match_def)
  qed
  then show "v_A s' = v_A s"
    and "length (v_x s') = length (v_x s) - (min (snd rng) (length (v_x s)) - fst rng)"
    and "descriptors_match s \<Longrightarrow> descriptors_match s'"
    by (simp_all add: f_def sd_def)
qed


lemma remove_variables_subset_result:
  assumes "remove_variables_subset indices ordered s = Inr s'"
  shows "v_A s' = v_A s"
    and "length (v_x s') = (if indices = [] then 0 else length (v_x s) - length indices)"
    and "descriptors_match s \<Longrightarrow> descriptors_match s'"
proof -
  have "v_A s' = v_A s \<and> length (v_x s') = (if indices = [] then 0 else length (v_x s) - length indices)
     \<and> (descriptors_match s \<longrightarrow> descriptors_match s')"
  proof (cases "indices = []")
    case True
    then have "s' = s \<and> v_x s = [] \<or> s' = s\<lparr> v_x := [], v_asset_indices := [], v_asset_type := [], v_cost := [],
                        v_disinvestment_cost := [], f_blocks_are_updated := False \<rparr>"
      using assms by (simp add: remove_variables_subset_def split: if_splits)
    then show ?thesis using True by (auto simp: descriptors_match_def)
  next
    case False
    define si where "si = (if ordered then indices else sort indices)"
    have len: "length si = length indices" by (simp add: si_def)
    from assms False obtain ai aty c d x where
      e: "compact (v_asset_indices s) si = Inr ai"
         "compact (v_asset_type s) si = Inr aty"
         "compact (v_cost s) si = Inr c"
         "compact (v_disinvestment_cost s) si = Inr d"
         "compact (v_x s) si = Inr x"
      and s': "s' = s\<lparr> f_blocks_are_updated := False,
                           v_asset_indices := ai, v_asset_type := aty,
                           v_cost := c, v_disinvestment_cost := d, v_x := x \<rparr>"
      unfolding remove_variables_subset_def Let_def si_def[symmetric]
      by (simp split: sum.splits if_splits)
    show ?thesis using e[THEN compact_length] len False unfolding s'
      by (simp add: descriptors_match_def)
  qed
  then show "v_A s' = v_A s"
    and "length (v_x s') = (if indices = [] then 0 else length (v_x s) - length indices)"
    and "descriptors_match s \<Longrightarrow> descriptors_match s'"
    by simp_all
qed

lemma range_example:
  "remove_variables_range (0, 1) two_assets
     = Inr (two_assets\<lparr> f_blocks_are_updated := False, v_x := [1], v_asset_indices := [1],
                          v_asset_type := [eUnitBlock], v_cost := [20],
                          v_disinvestment_cost := [0] \<rparr>)"
  by (simp add: remove_variables_range_def two_assets_def new_function_def erase_range_def)

lemma subset_example:
  "remove_variables_subset [0] True two_assets
     = Inr (two_assets\<lparr> f_blocks_are_updated := False, v_asset_indices := [1],
                          v_asset_type := [eUnitBlock], v_cost := [20],
                          v_disinvestment_cost := [0], v_x := [1] \<rparr>)"
  by (simp add: remove_variables_subset_def two_assets_def new_function_def compact_def
      compact_tail.simps)

text \<open>
  Claim C8 (as amended). When the asset descriptors (asset indices, asset types, costs and
  disinvestment costs) have the size of \<open>v_x\<close>, they still have it after
  \<^verbatim>\<open>remove_variables\<close> with a range and after \<^verbatim>\<open>remove_variables\<close> with a subset, and
  the number of variables has gone down by the number removed. The matrix of the linear side
  constraints is left as it was: its rows keep their columns.
\<close>

theorem remove_variables_keep_descriptors:
  assumes "descriptors_match s"
  shows "(\<forall>s'. remove_variables_range rng s = Inr s' \<longrightarrow>
            descriptors_match s' \<and> v_A s' = v_A s
            \<and> length (v_x s') = length (v_x s) - (min (snd rng) (length (v_x s)) - fst rng))
       \<and> (\<forall>s'. remove_variables_subset indices ordered s = Inr s' \<longrightarrow>
            descriptors_match s' \<and> v_A s' = v_A s
            \<and> length (v_x s') = (if indices = [] then 0 else length (v_x s) - length indices))"
  using assms remove_variables_range_result[of rng s] remove_variables_subset_result[of indices ordered s]
  by blast


text \<open>The theorem on the object with two assets: the first variable is removed.\<close>

theorem remove_variables_keep_descriptors_witness:
  "descriptors_match two_assets
   \<and> (\<exists>s'. remove_variables_range (0, 1) two_assets = Inr s' \<and> descriptors_match s'
             \<and> v_A s' = v_A two_assets \<and> length (v_x s') = 1)
   \<and> (\<exists>s'. remove_variables_subset [0] True two_assets = Inr s' \<and> descriptors_match s'
             \<and> v_A s' = v_A two_assets \<and> length (v_x s') = 1)"
proof -
  have h: "descriptors_match two_assets"
    by (simp add: descriptors_match_def two_assets_def new_function_def)
  have n: "length (v_x two_assets) = 2" by (simp add: two_assets_def new_function_def)
  show ?thesis
    using remove_variables_keep_descriptors[OF h, of "(0, 1)" "[0]" True]
      range_example subset_example h n
    by simp
qed

text \<open>
  Claim C8 as stated fails for the columns of the linear side constraints: after the first of
  two variables is removed, the row of the constraint still has two columns.
\<close>

theorem remove_variables_keep_columns_counterexample:
  "\<exists>s'. remove_variables_range (0, 1) two_assets = Inr s'
        \<and> length (v_x s') = 1 \<and> map length (v_A s') = [2] \<and> \<not> columns_match s'"
  unfolding range_example
  by (simp add: columns_match_def two_assets_def new_function_def)

text \<open>
  \<^verbatim>\<open>remove_variable( i )\<close> erases the asset index and the asset type of the variable, and
  leaves its cost and disinvestment cost in place.
\<close>

lemma remove_variable_keeps_costs:
  "\<exists>s'. remove_variable 0 two_assets = Inr s'
        \<and> length (v_x s') = 1 \<and> length (v_asset_indices s') = 1
        \<and> length (v_cost s') = 2 \<and> length (v_disinvestment_cost s') = 2
        \<and> \<not> descriptors_match s'"
  by (simp add: remove_variable_def two_assets_def new_function_def erase_at_def
      descriptors_match_def)

section \<open>Theorems about the current linearization\<close>

lemmas compute_defs = compute_def reset_linearization_def is_feasible_def
     Inf_Index_def compute_linear_constraint_value_def get_var_value_def worst_value_def handle_events_def
     evaluate_def run_scenarios_def lend_identity_def get_number_scenarios_def
     lock_sub_block_def unlock_sub_block_def update_linearization_def finish_evaluation_def
     scenario_body_def linear_term_def
     interrupted_return_def return_error_def
    get_installed_quantity_def get_cost_def get_disinvestment_cost_def release_inner_blocks_def release_inner_block_def

lemmas example_defs = two_assets_def one_asset_def new_function_def one_scenario_block_def zero_cost_environment_def shifted_asset_def

lemma dbl_minus_shift_lower:
  "dbl_minus l (Fin v) = dbl_plus (dbl_minus l (Fin 0)) (Fin (- v))"
  by (cases l) (simp_all add: dbl_minus_def)

lemma dbl_minus_shift_upper:
  "dbl_minus (Fin v) u = dbl_plus (dbl_minus (Fin 0) u) (Fin v)"
  by (cases u) (simp_all add: dbl_minus_def)

lemma dbl_minus_shift_diagonal:
  "dbl_minus f (Fin (a - b)) = dbl_plus (dbl_minus f (Fin a)) (Fin b)"
  by (cases f) (simp_all add: dbl_minus_def)

lemma vertical_shift_eq:
  "vertical_shift s i = (\<Sum>j \<leftarrow> [0 ..< length (v_A s ! i)]. v_A s ! i ! j * lower_bound_shift s j)"
proof -
  have "(if j < length (v_lower_bound s)
          then (case v_lower_bound s ! j of Lower l \<Rightarrow> v_A s ! i ! j * l | MinusInf \<Rightarrow> 0)
          else 0) = v_A s ! i ! j * lower_bound_shift s j" if "f_reformulated_bounds s" for j
    using that by (simp add: lower_bound_shift_def split: lower_bound.splits)
  then show ?thesis
    by (cases "f_reformulated_bounds s") (simp_all add: vertical_shift_def lower_bound_shift_def)
qed

lemma get_var_value_shift:
  "get_var_value s i False = get_var_value s i True + lower_bound_shift s i"
  by (simp add: get_var_value_def lower_bound_shift_def split: lower_bound.splits)

lemma two_assets_compute: "compute zero_cost_environment True two_assets =
   Inr (two_assets\<lparr> v_linearization := [0, 0], f_has_value := True, f_value := PosInf, f_status := kOK,
     f_violated_constraint := (0, eRHS), events_handled := 1\<rparr>)"
  by (simp add: compute_defs example_defs)

lemma shifted_asset_compute: "compute zero_cost_environment True shifted_asset =
   Inr (shifted_asset\<lparr> v_linearization := [0], f_has_value := True, f_value := PosInf, f_status := kOK,
     f_violated_constraint := (0, eLHS), events_handled := 1\<rparr>)"
  by (simp add: compute_defs example_defs)

lemma externalized_shifted_asset:
  "externalized shifted_asset = shifted_asset\<lparr> f_reformulated_bounds := False, v_x := [3] \<rparr>"
  by (simp add: externalized_def example_defs get_var_value_def)

lemma externalized_shifted_asset_compute:
  "compute zero_cost_environment True (externalized shifted_asset) =
   Inr (shifted_asset\<lparr> f_reformulated_bounds := False, v_x := [3],
     v_linearization := [0], f_has_value := True, f_value := PosInf, f_status := kOK,
     f_violated_constraint := (0, eLHS), events_handled := 1\<rparr>)"
  unfolding externalized_shifted_asset
  by (simp add: compute_defs example_defs)

text \<open>
  Claim C3. When a violated side (row \<open>i\<close>, side) of the linear side constraints is recorded
  in an object whose vectors have their sizes (the row has one column for each variable, the
  linearization one entry for each variable, the row has its two bounds), a vertical
  linearization is available, its coefficients read back are \<open>- a\<^sub>i\<close> for the lower side and
  \<open>a\<^sub>i\<close> for the upper side, and its constant is \<open>l\<^sub>i\<close> minus the sum of \<open>a\<^sub>i\<^sub>j * s\<^sub>j\<close> for
  the lower side and that sum minus \<open>u\<^sub>i\<close> for the upper side, \<open>s\<^sub>j\<close> being the shift of
  variable \<open>j\<close>.
\<close>

theorem vertical_linearization_read_back:
  assumes "f_violated_constraint s = (i, side)" and "i < Inf_Index" and "i < length (v_A s)"
    and "length (v_A s ! i) = length (v_x s)" and "length (v_linearization s) = length (v_x s)"
    and "i < length (v_constraints_lower_bound s)" and "i < length (v_constraints_upper_bound s)"
  shows "\<exists>s'. has_linearization False s = Inr (True, s')
     \<and> get_linearization_coefficients s' (0, length (v_x s)) Inf_Index
         = Inr (map (\<lambda>j. if side = eLHS then - (v_A s ! i ! j) else v_A s ! i ! j)
                  [0 ..< length (v_x s)])
     \<and> get_linearization_constant s' Inf_Index
         = Inr (if side = eLHS
                then dbl_minus (v_constraints_lower_bound s ! i)
                       (Fin (\<Sum>j \<leftarrow> [0 ..< length (v_x s)]. v_A s ! i ! j * lower_bound_shift s j))
                else dbl_minus
                       (Fin (\<Sum>j \<leftarrow> [0 ..< length (v_x s)]. v_A s ! i ! j * lower_bound_shift s j))
                       (v_constraints_upper_bound s ! i))"
proof -
  define s' where "s' = s\<lparr> f_diagonal_linearization_required := False,
      v_linearization := map (\<lambda>j. (if side = eLHS then - 1 else 1) * v_A s ! i ! j) [0 ..< length (v_x s)]
                              @ drop (length (v_x s)) (v_linearization s) \<rparr>"
  have h: "has_linearization False s = Inr (True, s')"
    using assms by (simp add: has_linearization_def Let_def s'_def)
  have lbs: "lower_bound_shift s' = lower_bound_shift s"
    by (rule ext) (simp add: lower_bound_shift_def s'_def)
  have A: "v_A s' = v_A s" by (simp add: s'_def)
  have vs: "vertical_shift s' i = (\<Sum>j \<leftarrow> [0 ..< length (v_x s)]. v_A s ! i ! j * lower_bound_shift s j)"
    unfolding vertical_shift_eq lbs A using assms(4) by simp
  have c: "get_linearization_coefficients s' (0, length (v_x s)) Inf_Index
         = Inr (map (\<lambda>j. if side = eLHS then - (v_A s ! i ! j) else v_A s ! i ! j)
                  [0 ..< length (v_x s)])"
    using assms by (auto simp add: get_linearization_coefficients_def Let_def s'_def)
  have k: "get_linearization_constant s' Inf_Index
         = Inr (if side = eLHS
                then dbl_minus (v_constraints_lower_bound s ! i) (Fin (vertical_shift s' i))
                else dbl_minus (Fin (vertical_shift s' i)) (v_constraints_upper_bound s ! i))"
    using assms by (simp add: get_linearization_constant_def Let_def s'_def)
  show ?thesis using h c k unfolding vs by blast
qed


text \<open>
  The theorem after \<^verbatim>\<open>compute\<close> on two assets at (3, 1) with \<open>x\<^sub>0 + x\<^sub>1 \<le> 2\<close>: the upper side
  of row 0 is recorded, the coefficients are (1, 1) and the constant is \<open>0 - 2\<close>.
\<close>

theorem vertical_linearization_read_back_witness:
  "\<exists>s. compute zero_cost_environment True two_assets = Inr s
     \<and> f_violated_constraint s = (0, eRHS) \<and> 0 < Inf_Index \<and> 0 < length (v_A s)
     \<and> length (v_A s ! 0) = length (v_x s) \<and> length (v_linearization s) = length (v_x s)
     \<and> 0 < length (v_constraints_lower_bound s) \<and> 0 < length (v_constraints_upper_bound s)
     \<and> (\<exists>s'. has_linearization False s = Inr (True, s')
           \<and> get_linearization_coefficients s' (0, 2) Inf_Index = Inr [1, 1]
           \<and> get_linearization_constant s' Inf_Index = Inr (Fin (- 2)))"
proof -
  define s where "s = two_assets\<lparr> v_linearization := [0, 0], f_has_value := True, f_value := PosInf,
     f_status := kOK, f_violated_constraint := (0, eRHS), events_handled := 1\<rparr>"
  have h: "f_violated_constraint s = (0, eRHS)" "0 < Inf_Index" "0 < length (v_A s)"
    "length (v_A s ! 0) = length (v_x s)" "length (v_linearization s) = length (v_x s)"
    "0 < length (v_constraints_lower_bound s)" "0 < length (v_constraints_upper_bound s)"
    by (simp_all add: s_def example_defs Inf_Index_def)
  have n: "length (v_x s) = 2" "v_A s ! 0 = [1, 1]" "v_constraints_upper_bound s ! 0 = Fin 2"
    "\<not> f_reformulated_bounds s"
    by (simp_all add: s_def example_defs)
  have "\<exists>s'. has_linearization False s = Inr (True, s')
           \<and> get_linearization_coefficients s' (0, 2) Inf_Index = Inr [1, 1]
           \<and> get_linearization_constant s' Inf_Index = Inr (Fin (- 2))"
    using vertical_linearization_read_back[OF h]
    by (simp add: n lower_bound_shift_def dbl_minus_def upt_rec)
  then show ?thesis using h two_assets_compute unfolding s_def[symmetric] by blast
qed

lemma sum_list_upt_cong:
  "(\<And>j. j < n \<Longrightarrow> f j = g j) \<Longrightarrow> (\<Sum>j \<leftarrow> [0 ..< n]. f j) = (\<Sum>j \<leftarrow> [0 ..< n]. (g j :: real))"
  by (rule arg_cong[where f = sum_list]) (simp add: map_eq_conv)

lemma externalized_fields:
  "v_A (externalized s) = v_A s"
  "v_linearization (externalized s) = v_linearization s"
  "f_value (externalized s) = f_value s"
  "f_violated_constraint (externalized s) = f_violated_constraint s"
  "f_diagonal_linearization_required (externalized s) = f_diagonal_linearization_required s"
  "v_constraints_lower_bound (externalized s) = v_constraints_lower_bound s"
  "v_constraints_upper_bound (externalized s) = v_constraints_upper_bound s"
  "length (v_x (externalized s)) = length (v_x s)"
  "\<not> f_reformulated_bounds (externalized s)"
  by (simp_all add: externalized_def)

lemma externalized_value:
  "i < length (v_x s) \<Longrightarrow> get_var_value (externalized s) i actual = get_var_value s i False"
  by (simp add: externalized_def get_var_value_def split: lower_bound.splits)

lemma vertical_constant_shift:
  assumes "\<not> f_diagonal_linearization_required s"
  shows "get_linearization_constant s Inf_Index
       = map_sum id (\<lambda>c. dbl_plus c
            (Fin (\<Sum>j \<leftarrow> [0 ..< current_size s]. current_coefficient s j * lower_bound_shift s j)))
           (get_linearization_constant (externalized s) Inf_Index)"
proof -
  obtain i side where v: "f_violated_constraint s = (i, side)" by (cases "f_violated_constraint s")
  have z: "vertical_shift (externalized s) i = 0"
    by (simp add: vertical_shift_def externalized_fields)
  show ?thesis
  proof (cases "side = eLHS")
    case True
    have "(\<Sum>j \<leftarrow> [0 ..< length (v_A s ! i)]. (- 1 * v_A s ! i ! j) * lower_bound_shift s j)
        = - vertical_shift s i"
      unfolding vertical_shift_eq by (simp add: uminus_sum_list_map o_def)
    then show ?thesis using assms v True z
      by (simp add: get_linearization_constant_def Let_def externalized_fields
          current_size_def current_coefficient_def dbl_minus_shift_lower[of _ "vertical_shift s i"])
  next
    case False
    have "(\<Sum>j \<leftarrow> [0 ..< length (v_A s ! i)]. (1 * v_A s ! i ! j) * lower_bound_shift s j)
        = vertical_shift s i"
      unfolding vertical_shift_eq by simp
    then show ?thesis using assms v False z
      by (simp add: get_linearization_constant_def Let_def externalized_fields
          current_size_def current_coefficient_def dbl_minus_shift_upper[of "vertical_shift s i"])
  qed
qed

lemma diagonal_constant_shift:
  assumes "f_diagonal_linearization_required s"
  shows "get_linearization_constant s Inf_Index
       = map_sum id (\<lambda>c. dbl_plus c
            (Fin (\<Sum>j \<leftarrow> [0 ..< current_size s]. current_coefficient s j * lower_bound_shift s j)))
           (get_linearization_constant (externalized s) Inf_Index)"
proof (cases "length (v_linearization s) > length (v_x s)")
  case True
  then show ?thesis using assms
    by (simp add: get_linearization_constant_def externalized_fields)
next
  case False
  let ?n = "length (v_linearization s)"
  have e: "(\<Sum>i \<leftarrow> [0 ..< ?n]. v_linearization s ! i * get_var_value (externalized s) i True)
      = (\<Sum>i \<leftarrow> [0 ..< ?n]. v_linearization s ! i * get_var_value s i True
                                   + v_linearization s ! i * lower_bound_shift s i)"
    using False by (intro sum_list_upt_cong) (simp add: externalized_value get_var_value_shift algebra_simps)
  have "(\<Sum>i \<leftarrow> [0 ..< ?n]. v_linearization s ! i * get_var_value s i True)
      = (\<Sum>i \<leftarrow> [0 ..< ?n]. v_linearization s ! i * get_var_value (externalized s) i True)
        - (\<Sum>i \<leftarrow> [0 ..< ?n]. v_linearization s ! i * lower_bound_shift s i)"
    unfolding e by (simp add: sum_list_addf)
  then show ?thesis using assms False
    by (simp add: get_linearization_constant_def externalized_fields current_size_def
        current_coefficient_def dbl_minus_shift_diagonal)
qed

text \<open>
  Claim C5 (as amended). Every external read of a variable returns its internal value plus
  its shift (its lower bound when the bounds are reformulated and the bound is finite). The
  constant of the current linearization, vertical or diagonal, equals the constant of the same
  linearization in the object without the reformulation at the same external point, plus the
  sum of coefficient times shift over the variables: constant plus coefficients times the
  stored values of the variables is the same in both objects, the constants are not.
\<close>

theorem reformulated_bounds_shift:
  "(\<forall>i. get_var_value s i False = get_var_value s i True + lower_bound_shift s i)
   \<and> get_linearization_constant s Inf_Index
       = map_sum id (\<lambda>c. dbl_plus c
            (Fin (\<Sum>j \<leftarrow> [0 ..< current_size s]. current_coefficient s j * lower_bound_shift s j)))
           (get_linearization_constant (externalized s) Inf_Index)"
  using get_var_value_shift vertical_constant_shift diagonal_constant_shift by blast


text \<open>
  The theorem on one asset with bounds [2, 5] at the internal point 1, with \<open>x \<ge> 4\<close>
  violated: the external value is 3, and the constant 2 is the constant 4 of the object
  without reformulation plus the coefficient \<open>- 1\<close> times the shift 2.
\<close>

theorem reformulated_bounds_shift_witness:
  "\<exists>s. has_linearization False
          (shifted_asset\<lparr> v_linearization := [0], f_has_value := True, f_value := PosInf,
             f_status := kOK, f_violated_constraint := (0, eLHS), events_handled := 1\<rparr>)
          = Inr (True, s)
     \<and> get_var_value s 0 False = 3 \<and> get_var_value s 0 True = 1 \<and> lower_bound_shift s 0 = 2
     \<and> get_linearization_constant (externalized s) Inf_Index = Inr (Fin 4)
     \<and> get_linearization_constant s Inf_Index = Inr (dbl_plus (Fin 4) (Fin (- 1 * 2)))"
proof -
  define s where "s = shifted_asset\<lparr> v_linearization := [- 1], f_has_value := True, f_value := PosInf,
             f_status := kOK, f_violated_constraint := (0, eLHS), events_handled := 1,
             f_diagonal_linearization_required := False \<rparr>"
  have h: "has_linearization False
          (shifted_asset\<lparr> v_linearization := [0], f_has_value := True, f_value := PosInf,
             f_status := kOK, f_violated_constraint := (0, eLHS), events_handled := 1\<rparr>)
          = Inr (True, s)"
    by (simp add: has_linearization_def Inf_Index_def Let_def example_defs s_def)
  have v: "get_var_value s 0 False = 3" "get_var_value s 0 True = 1" "lower_bound_shift s 0 = 2"
    by (simp_all add: s_def example_defs get_var_value_def lower_bound_shift_def)
  have e: "get_linearization_constant (externalized s) Inf_Index = Inr (Fin 4)"
    by (simp add: get_linearization_constant_def externalized_def vertical_shift_def dbl_minus_def
        Let_def s_def example_defs)
  have c: "(\<Sum>j \<leftarrow> [0 ..< current_size s]. current_coefficient s j * lower_bound_shift s j) = - 1 * 2"
    by (simp add: current_size_def current_coefficient_def lower_bound_shift_def s_def example_defs)
  have "get_linearization_constant s Inf_Index = Inr (dbl_plus (Fin 4) (Fin (- 1 * 2)))"
    using reformulated_bounds_shift[of s] unfolding e c by simp
  then show ?thesis using h v e by blast
qed

text \<open>
  Claim C5 as stated fails for the constants: on that asset, \<^verbatim>\<open>compute\<close> with and without
  the reformulation at the same external point 3 gives the same value and the same vertical
  coefficients, and the constants 2 and 4.
\<close>

theorem reformulated_constant_differs_counterexample:
  "\<exists>s s' t t'.
      compute zero_cost_environment True shifted_asset = Inr s
    \<and> compute zero_cost_environment True (externalized shifted_asset) = Inr t
    \<and> f_value s = f_value t
    \<and> has_linearization False s = Inr (True, s')
    \<and> has_linearization False t = Inr (True, t')
    \<and> get_linearization_coefficients s' (0, 1) Inf_Index = Inr [- 1]
    \<and> get_linearization_coefficients t' (0, 1) Inf_Index = Inr [- 1]
    \<and> get_linearization_constant s' Inf_Index = Inr (Fin 2)
    \<and> get_linearization_constant t' Inf_Index = Inr (Fin 4)"
  unfolding shifted_asset_compute externalized_shifted_asset_compute
  by (simp add: has_linearization_def get_linearization_coefficients_def
      get_linearization_constant_def vertical_shift_def dbl_minus_def Inf_Index_def Let_def
      example_defs)

section \<open>Theorems about compute\<close>

text \<open>
  The lemmas follow \<^verbatim>\<open>compute\<close> step by step: the feasibility check row by row, the locking
  of the sub-Blocks, the body of the scenario loop in each of its three outcomes, the loop
  itself, the loop of the investment term, and the two ways the evaluation returns.
\<close>

lemma lower_side_violated_iff:
  "0 \<le> tol \<Longrightarrow> lower_side_violated tol l v \<longleftrightarrow> \<not> lower_side_holds tol l v"
proof (cases l)
  case (Fin r)
  assume t: "0 \<le> tol"
  have m: "0 < max 1 \<bar>r\<bar>" by simp
  have "0 \<le> max 1 \<bar>r\<bar> * tol" using t by simp
  then show ?thesis using m
    by (auto simp: Fin lower_side_holds_def pos_less_divide_eq mult.commute
             simp del: max.bounded_iff)
qed (simp_all add: lower_side_holds_def)

lemma upper_side_violated_iff:
  "0 \<le> tol \<Longrightarrow> upper_side_violated tol u v \<longleftrightarrow> \<not> upper_side_holds tol u v"
proof (cases u)
  case (Fin r)
  assume t: "0 \<le> tol"
  have m: "0 < max 1 \<bar>r\<bar>" by simp
  have "0 \<le> max 1 \<bar>r\<bar> * tol" using t by simp
  then show ?thesis using m
    by (auto simp: Fin upper_side_holds_def pos_less_divide_eq mult.commute
             simp del: max.bounded_iff)
qed (simp_all add: upper_side_holds_def)

lemma compute_linear_constraint_value_sized:
  "constraints_sized s \<Longrightarrow> i < length (v_A s) \<Longrightarrow>
   compute_linear_constraint_value s i = Inr (constraint_value s i)"
  by (simp add: compute_linear_constraint_value_def constraint_value_def
      constraints_sized_def columns_match_def)

lemma is_feasible_rows_step:
  assumes "constraints_sized s" "0 \<le> f_constraints_tolerance s" "i < length (v_A s)"
  shows "is_feasible_rows s (i # rows) =
     (if \<not> lower_side_holds (f_constraints_tolerance s) (v_constraints_lower_bound s ! i)
              (constraint_value s i)
      then Inr (False, s\<lparr> f_violated_constraint := (i, eLHS) \<rparr>)
      else if \<not> upper_side_holds (f_constraints_tolerance s) (v_constraints_upper_bound s ! i)
              (constraint_value s i)
      then Inr (False, s\<lparr> f_violated_constraint := (i, eRHS) \<rparr>)
      else is_feasible_rows s rows)"
proof -
  have b: "i < length (v_constraints_lower_bound s)" "i < length (v_constraints_upper_bound s)"
    using assms(1,3) by (simp_all add: constraints_sized_def)
  have c: "compute_linear_constraint_value s i = Inr (constraint_value s i)"
    using assms(1,3) by (rule compute_linear_constraint_value_sized)
  show ?thesis
    unfolding is_feasible_rows.simps c
    using b assms(2) by (simp add: lower_side_violated_iff upper_side_violated_iff)
qed

lemma is_feasible_rows_all_hold:
  assumes "constraints_sized s" "0 \<le> f_constraints_tolerance s"
    and "\<forall>i \<in> set rows. i < length (v_A s) \<and> row_holds s i"
  shows "is_feasible_rows s rows = Inr (True, s)"
  using assms(3)
proof (induction rows)
  case Nil
  then show ?case by simp
next
  case (Cons i rows)
  then have i: "i < length (v_A s)" "row_holds s i" by simp_all
  have r: "is_feasible_rows s rows = Inr (True, s)" using Cons by simp
  show ?case
    unfolding is_feasible_rows_step[OF assms(1,2) i(1)] r
    using i(2) by (simp add: row_holds_def)
qed

lemma is_feasible_rows_some_fails:
  assumes "constraints_sized s" "0 \<le> f_constraints_tolerance s"
    and "\<forall>i \<in> set rows. i < length (v_A s)" and "\<exists>i \<in> set rows. \<not> row_holds s i"
  shows "\<exists>v. fst v \<in> set rows \<and> is_feasible_rows s rows = Inr (False, with_violation s v)"
  using assms(3,4)
proof (induction rows)
  case Nil
  then show ?case by simp
next
  case (Cons i rows)
  have i: "i < length (v_A s)" using Cons.prems(1) by simp
  note step = is_feasible_rows_step[OF assms(1,2) i, of rows]
  show ?case
  proof (cases "row_holds s i")
    case True
    then have ex: "\<exists>i \<in> set rows. \<not> row_holds s i" using Cons.prems(2) by auto
    have bd: "\<forall>i \<in> set rows. i < length (v_A s)" using Cons.prems(1) by simp
    from Cons.IH[OF bd ex] obtain v where k: "fst v \<in> set rows"
      "is_feasible_rows s rows = Inr (False, with_violation s v)"
      by blast
    have eq: "is_feasible_rows s (i # rows) = Inr (False, with_violation s v)"
      unfolding step k(2) using True by (simp add: row_holds_def)
    have m: "fst v \<in> set (i # rows)" using k(1) by simp
    show ?thesis using m eq by blast
  next
    case False
    then consider (l) "\<not> lower_side_holds (f_constraints_tolerance s) (v_constraints_lower_bound s ! i)
              (constraint_value s i)"
      | (u) "lower_side_holds (f_constraints_tolerance s) (v_constraints_lower_bound s ! i)
              (constraint_value s i)"
            "\<not> upper_side_holds (f_constraints_tolerance s) (v_constraints_upper_bound s ! i)
              (constraint_value s i)"
      unfolding row_holds_def by blast
    then show ?thesis
    proof cases
      case l
      have eq: "is_feasible_rows s (i # rows) = Inr (False, with_violation s (i, eLHS))"
        unfolding step with_violation_def using l by simp
      have m: "fst (i, eLHS) \<in> set (i # rows)" by simp
      show ?thesis using m eq by blast
    next
      case u
      have eq: "is_feasible_rows s (i # rows) = Inr (False, with_violation s (i, eRHS))"
        unfolding step with_violation_def using u by simp
      have m: "fst (i, eRHS) \<in> set (i # rows)" by simp
      show ?thesis using m eq by blast
    qed
  qed
qed

lemma get_var_value_cong:
  "v_x s' = v_x s \<Longrightarrow> v_lower_bound s' = v_lower_bound s \<Longrightarrow>
   f_reformulated_bounds s' = f_reformulated_bounds s \<Longrightarrow> get_var_value s' = get_var_value s"
  by (auto simp: fun_eq_iff get_var_value_def split: lower_bound.splits)

lemma prepared_get_var_value: "get_var_value (prepared s) = get_var_value s"
  by (rule get_var_value_cong) (simp_all add: prepared_def reset_linearization_def)

lemma prepared_facts:
  "constraints_sized (prepared s) = constraints_sized s"
  "row_holds (prepared s) = row_holds s"
  "f_constraints_tolerance (prepared s) = f_constraints_tolerance s"
  "v_A (prepared s) = v_A s"
proof -
  show "v_A (prepared s) = v_A s" "f_constraints_tolerance (prepared s) = f_constraints_tolerance s"
    by (simp_all add: prepared_def reset_linearization_def)
  show "constraints_sized (prepared s) = constraints_sized s"
    by (simp add: prepared_def reset_linearization_def constraints_sized_def columns_match_def)
  have "constraint_value (prepared s) = constraint_value s"
    unfolding constraint_value_def prepared_get_var_value
    by (simp add: prepared_def reset_linearization_def)
  then show "row_holds (prepared s) = row_holds s"
    unfolding row_holds_def fun_eq_iff
    by (simp add: prepared_def reset_linearization_def)
qed

lemma is_feasible_prepared:
  "is_feasible (prepared s) = is_feasible_rows (prepared s) [0 ..< length (v_A s)]"
  by (simp add: is_feasible_def prepared_def reset_linearization_def)

lemma linear_constraints_hold_rows:
  "linear_constraints_hold s \<longleftrightarrow> (\<forall>i < length (v_A s). row_holds s i)"
  by (simp add: linear_constraints_hold_def row_holds_def)

lemma compute_evaluating:
  assumes "changedvars \<or> \<not> f_blocks_are_updated s"
  shows "compute env changedvars s =
     (case is_feasible (prepared s) of
           Inl e \<Rightarrow> Inl (Throws e)
         | Inr (feasible, s') \<Rightarrow>
             if \<not> feasible
             then (case worst_value s' of
                     Inl e \<Rightarrow> Inl (Throws e)
                   | Inr w \<Rightarrow>
                       Inr (handle_events
                              (s'\<lparr> f_has_value := True, f_value := w, f_status := kOK \<rparr>)))
             else evaluate env s')"
  using assms
  by (cases changedvars; cases "f_blocks_are_updated s") (simp_all add: compute_def prepared_def)

lemma compute_feasible:
  assumes "changedvars \<or> \<not> f_blocks_are_updated s" "constraints_sized s"
    "0 \<le> f_constraints_tolerance s" "linear_constraints_hold s"
  shows "compute env changedvars s = evaluate env (prepared s)"
proof -
  have "is_feasible (prepared s) = Inr (True, prepared s)"
    unfolding is_feasible_prepared
    using assms by (intro is_feasible_rows_all_hold) (simp_all add: prepared_facts linear_constraints_hold_rows)
  then show ?thesis unfolding compute_evaluating[OF assms(1)] by simp
qed

lemma compute_infeasible:
  assumes "changedvars \<or> \<not> f_blocks_are_updated s" "constraints_sized s"
    "0 \<le> f_constraints_tolerance s" "\<not> linear_constraints_hold s"
  shows "\<exists>v. fst v < length (v_A s) \<and>
           compute env changedvars s = map_sum Throws (infeasible_return s v) (worst_value s)"
proof -
  have "\<exists>v. fst v \<in> set [0 ..< length (v_A s)] \<and>
           is_feasible_rows (prepared s) [0 ..< length (v_A s)]
             = Inr (False, with_violation (prepared s) v)"
    using assms by (intro is_feasible_rows_some_fails) (auto simp add: prepared_facts linear_constraints_hold_rows)
  then obtain v where i: "fst v < length (v_A s)"
    and f: "is_feasible (prepared s) = Inr (False, with_violation (prepared s) v)"
    unfolding is_feasible_prepared by auto
  have w: "worst_value (with_violation (prepared s) v) = worst_value s"
    by (simp add: worst_value_def prepared_def reset_linearization_def with_violation_def)
  have "compute env changedvars s = map_sum Throws (infeasible_return s v) (worst_value s)"
    unfolding compute_evaluating[OF assms(1)] f
    by (cases "worst_value s") (simp_all add: w infeasible_return_def)
  then show ?thesis using i by blast
qed

lemma lock_inner_blocks_free:
  "\<forall>b \<in> set bs. owner b = None \<or> owner b = Some ident \<Longrightarrow>
   lock_inner_blocks ident bs
     = (map (\<lambda>b. owner b = Some ident) bs, map (lock_block ident) bs, True)"
  by (induction bs) (auto simp: lock_block_def)

lemma map_zip3:
  "map f (zip (map g xs) (zip (map h xs) (map k xs))) = map (\<lambda>x. f (g x, h x, k x)) xs"
  by (induction xs) simp_all

lemma release_one:
  assumes "owner b = None \<or> owner b = Some ident"
  shows "release_inner_block ident
           (owner b = Some ident, solver_id (lock_block ident b),
            (if solver_id (lock_block ident b) \<noteq> None
             then (lock_block ident b)\<lparr> solver_id := Some ident \<rparr> else lock_block ident b)) = b"
  using assms by (cases "solver_id b") (auto simp: release_inner_block_def lock_block_def)

lemma release_after_lend:
  assumes "\<forall>b \<in> set bs. owner b = None \<or> owner b = Some ident"
  shows "release_inner_blocks ident (map (\<lambda>b. owner b = Some ident) bs)
           (map solver_id (map (lock_block ident) bs))
           (lend_identity ident (map (lock_block ident) bs)) = bs"
proof -
  have "release_inner_blocks ident (map (\<lambda>b. owner b = Some ident) bs)
           (map solver_id (map (lock_block ident) bs))
           (lend_identity ident (map (lock_block ident) bs))
      = map (\<lambda>b. release_inner_block ident
           (owner b = Some ident, solver_id (lock_block ident b),
            (if solver_id (lock_block ident b) \<noteq> None
             then (lock_block ident b)\<lparr> solver_id := Some ident \<rparr> else lock_block ident b))) bs"
    unfolding release_inner_blocks_def lend_identity_def map_map o_def
    by (rule map_zip3[where k = "\<lambda>b. if solver_id (lock_block ident b) \<noteq> None
             then (lock_block ident b)\<lparr> solver_id := Some ident \<rparr> else lock_block ident b"])
  also have "\<dots> = map (\<lambda>b. b) bs"
    using assms by (intro map_cong refl release_one) blast
  finally show ?thesis by simp
qed

lemma all_False_replicate: "\<forall>l \<in> set xs. \<not> l \<Longrightarrow> xs = replicate (length xs) False"
  by (induction xs) auto

lemma first_unlocked_replicate: "0 < n \<Longrightarrow> first_unlocked (replicate n False) = Some 0"
  by (cases n) simp_all

lemma lock_sub_block_free:
  assumes "slots_free s"
  shows "lock_sub_block s
     = Inr (0, s\<lparr> is_locked := (replicate (length (v_Block s)) False)[0 := True] \<rparr>)"
proof -
  have n: "0 < length (v_Block s)" using assms by (simp add: slots_free_def)
  have "(if is_locked s = [] then replicate (length (v_Block s)) False else is_locked s)
      = replicate (length (v_Block s)) False"
    using assms all_False_replicate[of "is_locked s"] by (auto simp: slots_free_def)
  then show ?thesis
    by (simp add: lock_sub_block_def first_unlocked_replicate[OF n])
qed

lemma scenario_body_interrupted:
  "scenario_body env scenario (True, es, sim, s) = Inr (True, es, sim, s)"
  by (simp add: scenario_body_def)

lemma replicate_unlock: "(replicate n False)[0 := False] = replicate n False"
  by (cases n) simp_all

lemma unlock_locked:
  assumes "is_locked t = (replicate n False)[0 := True]" "0 < n"
  shows "unlock_sub_block 0 t = Inr (t\<lparr> is_locked := replicate n False \<rparr>)"
  using assms by (simp add: unlock_sub_block_def replicate_unlock)

lemma scenario_body_no_primal:
  assumes "slots_free s" "\<not> has_var_solution (solve env scenario)"
  shows "scenario_body env scenario (False, es, sim, s) =
     Inr (True, solver_status (solve env scenario), sim, scenario_failed env scenario s)"
proof -
  have n: "0 < length (v_Block s)" and sv: "solver_id (v_Block s ! 0) \<noteq> None"
    using assms by (auto simp: slots_free_def hd_conv_nth)
  define t where "t = s\<lparr> is_locked := (replicate (length (v_Block s)) False)[0 := True],
      scenarios_solved := scenarios_solved s @ [scenario] \<rparr>"
  have u: "unlock_sub_block 0 t = Inr (t\<lparr> is_locked := replicate (length (v_Block s)) False \<rparr>)"
    using n by (intro unlock_locked) (simp_all add: t_def)
  have r: "t\<lparr> is_locked := replicate (length (v_Block s)) False \<rparr> = scenario_failed env scenario s"
    using assms(2) by (simp add: t_def scenario_failed_def)
  show ?thesis
    using n sv assms(2) u[unfolded r]
    by (simp add: scenario_body_def lock_sub_block_free[OF assms(1)] Let_def t_def)
qed

lemma scenario_body_update_throws:
  assumes "slots_free s" "has_var_solution (solve env scenario)"
    "f_compute_linearization s" "linearization_update (solve env scenario) = None"
  shows "scenario_body env scenario (False, es, sim, s) = Inl Terminated"
proof -
  have n: "0 < length (v_Block s)" and sv: "solver_id (v_Block s ! 0) \<noteq> None"
    using assms by (auto simp: slots_free_def hd_conv_nth)
  show ?thesis
    using n sv assms(2,3,4)
    by (simp add: scenario_body_def lock_sub_block_free[OF assms(1)] Let_def)
qed

lemma scenario_body_ok:
  assumes "slots_free s" "\<not> scenario_fails env s scenario"
  shows "scenario_body env scenario (False, es, sim, s) =
     Inr (False, es, sim + solver_value (solve env scenario), scenario_done env scenario s)"
proof -
  have n: "0 < length (v_Block s)" and sv: "solver_id (v_Block s ! 0) \<noteq> None"
    using assms by (auto simp: slots_free_def hd_conv_nth)
  have p: "has_var_solution (solve env scenario)"
    and q: "\<not> (f_compute_linearization s \<and> linearization_update (solve env scenario) = None)"
    using assms(2) by (auto simp: scenario_fails_def)
  define t where "t = (if f_compute_linearization s
      then update_linearization (the (linearization_update (solve env scenario)))
             (s\<lparr> is_locked := (replicate (length (v_Block s)) False)[0 := True],
                 scenarios_solved := scenarios_solved s @ [scenario],
                 f_status := solver_status (solve env scenario) \<rparr>)
      else s\<lparr> is_locked := (replicate (length (v_Block s)) False)[0 := True],
             scenarios_solved := scenarios_solved s @ [scenario],
             f_status := solver_status (solve env scenario) \<rparr>)"
  have u: "unlock_sub_block 0 t = Inr (t\<lparr> is_locked := replicate (length (v_Block s)) False \<rparr>)"
    using n by (intro unlock_locked) (simp_all add: t_def update_linearization_def)
  have r: "t\<lparr> is_locked := replicate (length (v_Block s)) False \<rparr> = scenario_done env scenario s"
    by (cases "f_compute_linearization s") (simp_all add: t_def scenario_done_def update_linearization_def)
  show ?thesis
  proof (cases "f_compute_linearization s")
    case True
    then obtain g where lu: "linearization_update (solve env scenario) = Some g" using q by auto
    show ?thesis
      using n sv p True u[unfolded r]
      by (simp add: scenario_body_def lock_sub_block_free[OF assms(1)] Let_def t_def lu)
  next
    case False
    then show ?thesis
      using n sv p u[unfolded r]
      by (simp add: scenario_body_def lock_sub_block_free[OF assms(1)] Let_def t_def)
  qed
qed

lemma slots_free_done: "slots_free s \<Longrightarrow> slots_free (scenario_done env scenario s)"
  by (simp add: slots_free_def scenario_done_def)

lemma slots_free_failed: "slots_free s \<Longrightarrow> slots_free (scenario_failed env scenario s)"
  by (simp add: slots_free_def scenario_failed_def)

lemma scenario_fails_done:
  "scenario_fails env (scenario_done env scenario s) = scenario_fails env s"
  by (simp add: scenario_fails_def scenario_done_def fun_eq_iff)

lemma scenario_frame_refl: "scenario_frame s s"
  by (simp add: scenario_frame_def)

lemma scenario_frame_trans: "scenario_frame s t \<Longrightarrow> scenario_frame t u \<Longrightarrow> scenario_frame s u"
  by (simp add: scenario_frame_def)

lemma scenario_frame_done: "scenario_frame s (scenario_done env scenario s)"
  by (simp add: scenario_frame_def scenario_done_def)

lemma scenario_frame_failed: "scenario_frame s (scenario_failed env scenario s)"
  by (simp add: scenario_frame_def scenario_failed_def)

lemma scenario_frame_scenarios_done: "scenario_frame s (scenarios_done env scs s)"
proof (induction scs arbitrary: s)
  case Nil
  show ?case by (simp add: scenario_frame_refl)
next
  case (Cons a scs)
  show ?case using scenario_frame_trans[OF scenario_frame_done Cons] by simp
qed

lemma scenario_loop_interrupted:
  "scenario_loop env scs (True, es, sim, s) = Inr (True, es, sim, s)"
  by (induction scs) (simp_all add: scenario_body_interrupted)

lemma slots_free_scenarios_done: "slots_free s \<Longrightarrow> slots_free (scenarios_done env scs s)"
  by (induction scs arbitrary: s) (simp_all add: slots_free_done)

lemma scenario_fails_scenarios_done:
  "scenario_fails env (scenarios_done env scs s) = scenario_fails env s"
  by (induction scs arbitrary: s) (simp_all add: scenario_fails_done)

lemma scenario_loop_ok:
  assumes "slots_free s" "\<forall>scenario \<in> set scs. \<not> scenario_fails env s scenario"
  shows "scenario_loop env scs (False, es, sim, s) =
     Inr (False, es, sim + (\<Sum>scenario \<leftarrow> scs. solver_value (solve env scenario)),
          scenarios_done env scs s)"
  using assms
proof (induction scs arbitrary: s sim)
  case Nil
  show ?case by simp
next
  case (Cons a scs)
  have b: "scenario_body env a (False, es, sim, s) =
     Inr (False, es, sim + solver_value (solve env a), scenario_done env a s)"
    using Cons.prems by (intro scenario_body_ok) simp_all
  have r: "scenario_loop env scs (False, es, sim + solver_value (solve env a), scenario_done env a s) =
     Inr (False, es, sim + solver_value (solve env a) + (\<Sum>scenario \<leftarrow> scs. solver_value (solve env scenario)),
          scenarios_done env scs (scenario_done env a s))"
    using Cons.prems by (intro Cons.IH) (simp_all add: slots_free_done scenario_fails_done)
  show ?case unfolding scenario_loop.simps b using r by (simp add: add.assoc)
qed

lemma scenario_loop_fails:
  assumes "slots_free s" "\<exists>scenario \<in> set scs. scenario_fails env s scenario"
    and "\<forall>scenario \<in> set scs. scenario_fails env s scenario
           \<longrightarrow> \<not> has_var_solution (solve env scenario)"
  shows "\<exists>es' sim' s'. scenario_loop env scs (False, es, sim, s) = Inr (True, es', sim', s')
           \<and> scenario_frame s s' \<and> slots_free s' \<and> length (is_locked s') = length (v_Block s')"
  using assms
proof (induction scs arbitrary: s sim)
  case Nil
  then show ?case by simp
next
  case (Cons a scs)
  show ?case
  proof (cases "scenario_fails env s a")
    case True
    then have np: "\<not> has_var_solution (solve env a)" using Cons.prems(3) by simp
    have b: "scenario_body env a (False, es, sim, s)
        = Inr (True, solver_status (solve env a), sim, scenario_failed env a s)"
      using Cons.prems(1) np by (rule scenario_body_no_primal)
    have l: "scenario_loop env (a # scs) (False, es, sim, s)
        = Inr (True, solver_status (solve env a), sim, scenario_failed env a s)"
      unfolding scenario_loop.simps b by (simp add: scenario_loop_interrupted)
    have len: "length (is_locked (scenario_failed env a s)) = length (v_Block (scenario_failed env a s))"
      by (simp add: scenario_failed_def)
    show ?thesis
      using l scenario_frame_failed[of s env a] slots_free_failed[OF Cons.prems(1), of env a] len
      by blast
  next
    case False
    have b: "scenario_body env a (False, es, sim, s) =
       Inr (False, es, sim + solver_value (solve env a), scenario_done env a s)"
      using Cons.prems(1) False by (rule scenario_body_ok)
    have ex: "\<exists>scenario \<in> set scs. scenario_fails env (scenario_done env a s) scenario"
      using Cons.prems(2) False by (auto simp: scenario_fails_done)
    have np: "\<forall>scenario \<in> set scs. scenario_fails env (scenario_done env a s) scenario
           \<longrightarrow> \<not> has_var_solution (solve env scenario)"
      using Cons.prems(3) by (simp add: scenario_fails_done)
    from Cons.IH[OF slots_free_done[OF Cons.prems(1)] ex np, of "sim + solver_value (solve env a)"]
    obtain es' sim' s' where r:
      "scenario_loop env scs (False, es, sim + solver_value (solve env a), scenario_done env a s)
         = Inr (True, es', sim', s')"
      "scenario_frame (scenario_done env a s) s'" "slots_free s'"
      "length (is_locked s') = length (v_Block s')"
      by blast
    have l: "scenario_loop env (a # scs) (False, es, sim, s) = Inr (True, es', sim', s')"
      unfolding scenario_loop.simps b using r(1) by simp
    show ?thesis
      using l scenario_frame_trans[OF scenario_frame_done r(2)] r(3,4) by blast
  qed
qed

lemma scenario_done_linearization:
  "length (v_linearization (scenario_done env a s)) = length (v_linearization s)"
  "i < length (v_linearization s) \<Longrightarrow>
   v_linearization (scenario_done env a s) ! i
     = v_linearization s ! i
       + (if f_compute_linearization s then the (linearization_update (solve env a)) i else 0)"
  "f_compute_linearization (scenario_done env a s) = f_compute_linearization s"
  by (simp_all add: scenario_done_def)

lemma scenarios_done_linearization:
  "length (v_linearization (scenarios_done env scs s)) = length (v_linearization s)
   \<and> f_compute_linearization (scenarios_done env scs s) = f_compute_linearization s
   \<and> (\<forall>i < length (v_linearization s).
        v_linearization (scenarios_done env scs s) ! i
          = v_linearization s ! i
            + (if f_compute_linearization s
               then (\<Sum>scenario \<leftarrow> scs. the (linearization_update (solve env scenario)) i)
               else 0))"
proof (induction scs arbitrary: s)
  case Nil
  show ?case by simp
next
  case (Cons a scs)
  show ?case
    using Cons[of "scenario_done env a s"]
    by (simp add: scenario_done_linearization add.assoc)
qed

lemma dbl_plus_Fin_assoc: "dbl_plus (dbl_plus f (Fin a)) (Fin b) = dbl_plus f (Fin (a + b))"
  by (cases f) simp_all

lemma dbl_plus_zero: "dbl_plus f (Fin 0) = f"
  by (cases f) simp_all

lemma partial_term_0: "partial_term s 0 = s"
  by (simp add: partial_term_def dbl_plus_zero map_nth)

lemma partial_term_reads:
  "get_var_value (partial_term s k) = get_var_value s"
  "get_cost (partial_term s k) = get_cost s"
  "get_disinvestment_cost (partial_term s k) = get_disinvestment_cost s"
  "get_installed_quantity (partial_term s k) = get_installed_quantity s"
  "length (v_linearization (partial_term s k)) = length (v_linearization s)"
     apply (rule get_var_value_cong; simp add: partial_term_def)
    apply (simp_all add: partial_term_def fun_eq_iff get_cost_def get_disinvestment_cost_def
      get_installed_quantity_def)
  done

lemma get_installed_quantity_sized:
  assumes "v_installed_quantity s = [] \<or> length (v_x s) \<le> length (v_installed_quantity s)"
    "k < length (v_x s)"
  shows "get_installed_quantity s k = Inr (installed_quantity_of s k)"
  using assms by (auto simp: get_installed_quantity_def installed_quantity_of_def)

lemma linear_term_step:
  assumes "v_installed_quantity s = [] \<or> length (v_x s) \<le> length (v_installed_quantity s)"
    "length (v_linearization s) = length (v_x s)" "k < length (v_x s)"
  shows "linear_term k (partial_term s k) = Inr (partial_term s (Suc k))"
proof -
  let ?n = "length (v_linearization s)"
  have q: "get_installed_quantity s k = Inr (installed_quantity_of s k)"
    using assms(1,3) by (rule get_installed_quantity_sized)
  have kn: "k < ?n" using assms by simp
  have lin: "(map (\<lambda>i. if i < k then v_linearization s ! i + investment_slope s i
                    else v_linearization s ! i) [0 ..< ?n])[k := v_linearization s ! k + d]
      = map (\<lambda>i. if i < Suc k then v_linearization s ! i + (if i = k then d else investment_slope s i)
                    else v_linearization s ! i) [0 ..< ?n]" for d
  proof (rule nth_equalityI)
    show "length ((map (\<lambda>i. if i < k then v_linearization s ! i + investment_slope s i
                    else v_linearization s ! i) [0 ..< ?n])[k := v_linearization s ! k + d])
      = length (map (\<lambda>i. if i < Suc k then v_linearization s ! i + (if i = k then d else investment_slope s i)
                    else v_linearization s ! i) [0 ..< ?n])" by simp
  next
    fix i assume "i < length ((map (\<lambda>i. if i < k then v_linearization s ! i + investment_slope s i
                    else v_linearization s ! i) [0 ..< ?n])[k := v_linearization s ! k + d])"
    then have i: "i < ?n" by simp
    show "(map (\<lambda>i. if i < k then v_linearization s ! i + investment_slope s i
                    else v_linearization s ! i) [0 ..< ?n])[k := v_linearization s ! k + d] ! i
      = map (\<lambda>i. if i < Suc k then v_linearization s ! i + (if i = k then d else investment_slope s i)
                    else v_linearization s ! i) [0 ..< ?n] ! i"
      using i kn by (cases "i = k") (simp_all add: nth_list_update)
  qed
  have lin': "map (\<lambda>i. if i < Suc k then v_linearization s ! i + (if i = k then investment_slope s k else investment_slope s i)
                    else v_linearization s ! i) [0 ..< ?n]
     = map (\<lambda>i. if i < Suc k then v_linearization s ! i + investment_slope s i
                    else v_linearization s ! i) [0 ..< ?n]"
    by (rule map_cong) auto
  show ?thesis
  proof (cases "get_var_value s k False > installed_quantity_of s k")
    case True
    have t: "investment_term s k = get_cost s k * (get_var_value s k False - installed_quantity_of s k)"
      "investment_slope s k = get_cost s k"
      using True by (simp_all add: investment_term_def investment_slope_def)
    show ?thesis
      unfolding linear_term_def partial_term_reads q
      using True kn lin[of "get_cost s k"] lin'
      by (simp add: partial_term_def dbl_plus_Fin_assoc t Let_def)
  next
    case False
    have t: "investment_term s k = get_disinvestment_cost s k * (installed_quantity_of s k - get_var_value s k False)"
      "investment_slope s k = - get_disinvestment_cost s k"
      using False by (simp_all add: investment_term_def investment_slope_def)
    show ?thesis
      unfolding linear_term_def partial_term_reads q
      using False kn lin[of "- get_disinvestment_cost s k"] lin'
      by (simp add: partial_term_def dbl_plus_Fin_assoc t Let_def)
  qed
qed

lemma linear_term_loop_from:
  assumes "v_installed_quantity s = [] \<or> length (v_x s) \<le> length (v_installed_quantity s)"
    "length (v_linearization s) = length (v_x s)"
  shows "k \<le> length (v_x s) \<Longrightarrow>
         linear_term_loop [k ..< length (v_x s)] (partial_term s k)
           = Inr (partial_term s (length (v_x s)))"
proof (induction "length (v_x s) - k" arbitrary: k)
  case 0
  then show ?case by simp
next
  case (Suc d)
  then have k: "k < length (v_x s)" by simp
  have u: "[k ..< length (v_x s)] = k # [Suc k ..< length (v_x s)]" using k by (simp add: upt_rec)
  have "linear_term_loop [Suc k ..< length (v_x s)] (partial_term s (Suc k))
           = Inr (partial_term s (length (v_x s)))"
    using Suc k by (intro Suc.hyps(1)) simp_all
  then show ?case
    unfolding u linear_term_loop.simps linear_term_step[OF assms k] by simp
qed

lemma linear_term_loop_all:
  assumes "v_installed_quantity s = [] \<or> length (v_x s) \<le> length (v_installed_quantity s)"
    "length (v_linearization s) = length (v_x s)"
  shows "linear_term_loop [0 ..< length (v_x s)] s = Inr (partial_term s (length (v_x s)))"
  using linear_term_loop_from[OF assms, of 0] by (simp add: partial_term_0)

lemma solver_id_lock_block: "solver_id (lock_block ident b) = solver_id b"
  by (simp add: lock_block_def)

lemma lent_facts:
  "length (lent p) = length (v_Block p)"
  "v_Block p \<noteq> [] \<Longrightarrow> lent p \<noteq> []"
  "v_Block p \<noteq> [] \<Longrightarrow> solver_id (hd (v_Block p)) \<noteq> None \<Longrightarrow> solver_id (hd (lent p)) \<noteq> None"
  "v_Block p \<noteq> [] \<Longrightarrow> scenario_set_size (hd (lent p)) = scenario_set_size (hd (v_Block p))"
  by (cases "v_Block p"; simp add: lent_def lend_identity_def lock_block_def)+

lemma release_lent:
  assumes "\<forall>b \<in> set (v_Block p). owner b = None \<or> owner b = Some (f_id p)"
  shows "release_inner_blocks (f_id p) (owned_at_entry p) (map solver_id (v_Block p)) (lent p)
         = v_Block p"
  using release_after_lend[OF assms]
  by (simp add: lent_def owned_at_entry_def solver_id_lock_block o_def)

lemma evaluate_ready:
  assumes "blocks_ready p"
  shows "evaluate env p
     = run_scenarios env (owned_at_entry p) (map solver_id (v_Block p)) (p\<lparr> v_Block := lent p \<rparr>)"
proof -
  have f: "\<forall>b \<in> set (v_Block p). owner b = None \<or> owner b = Some (f_id p)"
    and ne: "v_Block p \<noteq> []"
    using assms by (simp_all add: blocks_ready_def)
  show ?thesis
    using ne
    by (simp add: evaluate_def lock_inner_blocks_free[OF f] lent_def owned_at_entry_def
        solver_id_lock_block o_def)
qed

lemma slots_free_started: "blocks_ready p \<Longrightarrow> slots_free (started p)"
  by (auto simp add: slots_free_def blocks_ready_def started_def lent_facts)

lemma run_scenarios_started:
  assumes "\<not> update_blocks_throws env" "v_Block p \<noteq> []"
  shows "run_scenarios env owned ids (p\<lparr> v_Block := lent p \<rparr>) =
     (case scenario_loop env [0 ..< scenario_set_size (hd (v_Block p))] (False, kError, 0, started p) of
        Inl e \<Rightarrow> Inl e
      | Inr (interrupt_loop, error_status, simulation_value, s3) \<Rightarrow>
          if interrupt_loop then interrupted_return owned ids s3
          else finish_evaluation owned ids (scenario_set_size (hd (v_Block p)))
                 (f_ignore_modifications p) simulation_value s3)"
proof -
  have n: "get_number_scenarios (p\<lparr> v_Block := lent p, f_blocks_are_updated := True \<rparr>)
        = scenario_set_size (hd (v_Block p))"
    using lent_facts(2,4)[OF assms(2)]
    by (cases "lent p") (simp_all add: get_number_scenarios_def)
  have i: "f_ignore_modifications (p\<lparr> v_Block := lent p, f_blocks_are_updated := True \<rparr>)
        = f_ignore_modifications p" by simp
  show ?thesis
    unfolding run_scenarios_def Let_def started_def n i
    using assms(1) by simp
qed

lemma scenario_frame_sel:
  assumes "scenario_frame s s'"
  shows "f (s'\<lparr> is_locked := [], scenarios_solved := [], f_status := kUnEval, v_linearization := [] \<rparr>)
       = f (s\<lparr> is_locked := [], scenarios_solved := [], f_status := kUnEval, v_linearization := [] \<rparr>)"
  using assms by (simp add: scenario_frame_def)

lemma scenario_frame_fields:
  assumes "scenario_frame s s'"
  shows "v_Block s' = v_Block s" "f_id s' = f_id s" "events_handled s' = events_handled s"
    "v_x s' = v_x s" "v_cost s' = v_cost s" "v_disinvestment_cost s' = v_disinvestment_cost s"
    "v_installed_quantity s' = v_installed_quantity s" "v_lower_bound s' = v_lower_bound s"
    "f_reformulated_bounds s' = f_reformulated_bounds s"
    "f_compute_linearization s' = f_compute_linearization s"
    "f_violated_constraint s' = f_violated_constraint s"
    "f_ignore_modifications s' = f_ignore_modifications s"
    "f_blocks_are_updated s' = f_blocks_are_updated s"
    "f_value s' = f_value s"
  using scenario_frame_sel[OF assms, of v_Block] scenario_frame_sel[OF assms, of f_id]
    scenario_frame_sel[OF assms, of events_handled] scenario_frame_sel[OF assms, of v_x]
    scenario_frame_sel[OF assms, of v_cost] scenario_frame_sel[OF assms, of v_disinvestment_cost]
    scenario_frame_sel[OF assms, of v_installed_quantity] scenario_frame_sel[OF assms, of v_lower_bound]
    scenario_frame_sel[OF assms, of f_reformulated_bounds]
    scenario_frame_sel[OF assms, of f_compute_linearization]
    scenario_frame_sel[OF assms, of f_violated_constraint]
    scenario_frame_sel[OF assms, of f_ignore_modifications]
    scenario_frame_sel[OF assms, of f_blocks_are_updated]
    scenario_frame_sel[OF assms, of f_value]
  by simp_all

lemma unlock_sub_blocks_free:
  "\<forall>i \<in> set idx. i < length (is_locked t) \<Longrightarrow> \<forall>l \<in> set (is_locked t). \<not> l \<Longrightarrow>
   unlock_sub_blocks idx t = Inr t"
proof (induction idx)
  case Nil
  show ?case by simp
next
  case (Cons i idx)
  have i: "i < length (is_locked t)" using Cons.prems(1) by simp
  then have "\<not> is_locked t ! i" using Cons.prems(2) nth_mem[of i "is_locked t"] by blast
  then have "(is_locked t)[i := False] = is_locked t" using i by (simp add: list_update_same_conv)
  then have u: "unlock_sub_block i t = Inr t" using i by (simp add: unlock_sub_block_def)
  show ?case unfolding unlock_sub_blocks.simps u using Cons by simp
qed

lemma worst_value_ready:
  "v_Block t \<noteq> [] \<Longrightarrow> 0 < time_horizon (hd (v_Block t)) \<Longrightarrow> worst_value t = Inr (worst_of t)"
  by (cases "v_Block t") (simp_all add: worst_value_def worst_of_def)

lemma interrupted_return_ok:
  assumes "scenario_frame (started p) s3" "slots_free s3"
    "length (is_locked s3) = length (v_Block s3)" "blocks_ready p"
  shows "\<exists>r. interrupted_return (owned_at_entry p) (map solver_id (v_Block p)) s3 = Inr r
     \<and> f_status r = kError \<and> f_value r = worst_of p
     \<and> (\<forall>l \<in> set (is_locked r). \<not> l) \<and> length (is_locked r) = length (v_Block p)
     \<and> events_handled r = Suc (events_handled p) \<and> v_Block r = v_Block p
     \<and> f_has_diagonal_linearization r = f_has_diagonal_linearization p
     \<and> f_violated_constraint r = f_violated_constraint p"
proof -
  note fr = scenario_frame_fields[OF assms(1)]
  have free: "\<forall>b \<in> set (v_Block p). owner b = None \<or> owner b = Some (f_id p)"
    and ne: "v_Block p \<noteq> []" and th: "0 < time_horizon (hd (v_Block p))"
    using assms(4) by (simp_all add: blocks_ready_def)
  have vb: "v_Block s3 = lent p" and fid: "f_id s3 = f_id p"
    using fr(1,2) by (simp_all add: started_def)
  define t where "t = s3\<lparr> v_Block := v_Block p \<rparr>"
  have rel: "s3\<lparr> v_Block := release_inner_blocks (f_id s3) (owned_at_entry p)
                 (map solver_id (v_Block p)) (v_Block s3) \<rparr> = t"
    unfolding vb fid release_lent[OF free] t_def ..
  have len: "length (is_locked t) = length (v_Block s3)" "\<forall>l \<in> set (is_locked t). \<not> l"
    using assms(2,3) by (auto simp add: t_def slots_free_def)
  have u: "unlock_sub_blocks [0 ..< length (v_Block s3)] t = Inr t"
    using len by (intro unlock_sub_blocks_free) simp_all
  have w: "worst_value t = Inr (worst_of p)"
    using worst_value_ready[of t] ne th by (simp add: t_def worst_of_def)
  define r where "r = handle_events (t\<lparr> f_value := worst_of p, f_status := kError \<rparr>)"
  have eq: "interrupted_return (owned_at_entry p) (map solver_id (v_Block p)) s3 = Inr r"
    unfolding interrupted_return_def rel u by (simp add: return_error_def w r_def)
  have p1: "f_status r = kError" "f_value r = worst_of p" "v_Block r = v_Block p"
    by (simp_all add: r_def handle_events_def t_def)
  have p2: "\<forall>l \<in> set (is_locked r). \<not> l" "length (is_locked r) = length (v_Block p)"
    using len vb by (simp_all add: r_def handle_events_def lent_facts)
  have p3: "events_handled r = Suc (events_handled p)"
    using fr(3) by (simp add: r_def handle_events_def t_def started_def)
  have p4: "f_violated_constraint r = f_violated_constraint p"
    using fr(11) by (simp add: r_def handle_events_def t_def started_def)
  have p5: "f_has_diagonal_linearization r = f_has_diagonal_linearization p"
    using scenario_frame_sel[OF assms(1), of f_has_diagonal_linearization]
    by (simp add: r_def handle_events_def t_def started_def)
  show ?thesis using eq p1 p2 p3 p4 p5 by blast
qed

lemma investment_cong:
  assumes "v_x s' = v_x s" "v_lower_bound s' = v_lower_bound s"
    "f_reformulated_bounds s' = f_reformulated_bounds s"
    "v_installed_quantity s' = v_installed_quantity s" "v_cost s' = v_cost s"
    "v_disinvestment_cost s' = v_disinvestment_cost s"
  shows "investment_term s' = investment_term s" "investment_slope s' = investment_slope s"
proof -
  have g: "get_var_value s' = get_var_value s" using assms(1,2,3) by (rule get_var_value_cong)
  have q: "installed_quantity_of s' = installed_quantity_of s"
    using assms(4) by (simp add: installed_quantity_of_def fun_eq_iff)
  have c: "get_cost s' = get_cost s" "get_disinvestment_cost s' = get_disinvestment_cost s"
    using assms(5,6) by (simp_all add: get_cost_def get_disinvestment_cost_def fun_eq_iff)
  show "investment_term s' = investment_term s" "investment_slope s' = investment_slope s"
    unfolding investment_term_def investment_slope_def g q c by simp_all
qed

lemma finish_evaluation_ok:
  assumes "blocks_ready p" "0 < S"
    "v_installed_quantity p = [] \<or> length (v_x p) \<le> length (v_installed_quantity p)"
    "length (v_linearization p) = length (v_x p)"
  shows "\<exists>r. finish_evaluation (owned_at_entry p) (map solver_id (v_Block p)) S
               (f_ignore_modifications p) sim (scenarios_done env scs (started p)) = Inr r
     \<and> f_status r = kOK \<and> f_has_value r
     \<and> f_has_diagonal_linearization r = f_compute_linearization p
     \<and> f_value r = Fin (sim / real S + (\<Sum>i \<leftarrow> [0 ..< length (v_x p)]. investment_term p i))
     \<and> length (v_linearization r) = length (v_x p)
     \<and> (\<forall>i < length (v_x p).
          v_linearization r ! i
            = (v_linearization p ! i
               + (if f_compute_linearization p
                  then (\<Sum>scenario \<leftarrow> scs. the (linearization_update (solve env scenario)) i)
                  else 0)) / real S
              + investment_slope p i)
     \<and> events_handled r = Suc (events_handled p) \<and> v_Block r = v_Block p
     \<and> f_violated_constraint r = f_violated_constraint p
     \<and> f_ignore_modifications r = f_ignore_modifications p"
proof -
  define s3 where "s3 = scenarios_done env scs (started p)"
  let ?n = "length (v_x p)"
  have frame: "scenario_frame (started p) s3"
    unfolding s3_def by (rule scenario_frame_scenarios_done)
  note fr = scenario_frame_fields[OF frame]
  have free: "\<forall>b \<in> set (v_Block p). owner b = None \<or> owner b = Some (f_id p)"
    using assms(1) by (simp add: blocks_ready_def)
  have lin3: "length (v_linearization s3) = ?n"
    "\<forall>i < ?n. v_linearization s3 ! i = v_linearization p ! i
            + (if f_compute_linearization p
               then (\<Sum>scenario \<leftarrow> scs. the (linearization_update (solve env scenario)) i)
               else 0)"
    "f_compute_linearization s3 = f_compute_linearization p"
    using scenarios_done_linearization[of env scs "started p"] assms(4)
    unfolding s3_def by (simp_all add: started_def)
  define t where "t = s3\<lparr> f_value := Fin (sim / real S),
                    f_ignore_modifications := f_ignore_modifications p,
                    v_linearization := map (\<lambda>v. v / real S) (v_linearization s3) \<rparr>"
  have tx: "v_x t = v_x p" "v_lower_bound t = v_lower_bound p"
    "f_reformulated_bounds t = f_reformulated_bounds p"
    "v_installed_quantity t = v_installed_quantity p" "v_cost t = v_cost p"
    "v_disinvestment_cost t = v_disinvestment_cost p"
    using fr by (simp_all add: t_def started_def)
  have tl: "length (v_linearization t) = length (v_x t)"
    using lin3(1) tx(1) by (simp add: t_def)
  have ti: "v_installed_quantity t = [] \<or> length (v_x t) \<le> length (v_installed_quantity t)"
    using assms(3) tx by simp
  have loop: "linear_term_loop [0 ..< length (v_x s3)] t = Inr (partial_term t ?n)"
    using linear_term_loop_all[OF ti tl] tx(1) fr(4) by (simp add: started_def)
  define r where "r = handle_events
                    ((partial_term t ?n)\<lparr> v_Block := v_Block p,
                        f_has_diagonal_linearization := f_compute_linearization p,
                        f_has_value := True,
                        f_status := kOK \<rparr>)"
  have pt: "f_id (partial_term t ?n) = f_id p" "v_Block (partial_term t ?n) = lent p"
    "f_compute_linearization (partial_term t ?n) = f_compute_linearization p"
    using fr(1,2) lin3(3) by (simp_all add: partial_term_def t_def started_def)
  have eq: "finish_evaluation (owned_at_entry p) (map solver_id (v_Block p)) S
               (f_ignore_modifications p) sim s3 = Inr r"
    unfolding finish_evaluation_def t_def[symmetric] loop
    using assms(2) by (simp add: pt release_lent[OF free] r_def)
  have inv: "investment_term t = investment_term p" "investment_slope t = investment_slope p"
    using tx by (rule investment_cong)+
  have p1: "f_status r = kOK" "f_has_value r"
    "f_has_diagonal_linearization r = f_compute_linearization p" "v_Block r = v_Block p"
    by (simp_all add: r_def handle_events_def)
  have p2: "f_value r = Fin (sim / real S + (\<Sum>i \<leftarrow> [0 ..< ?n]. investment_term p i))"
    by (simp add: r_def handle_events_def partial_term_def inv) (simp add: t_def)
  have p3: "length (v_linearization r) = ?n"
    using tl tx(1) by (simp add: r_def handle_events_def partial_term_def)
  have p4: "\<forall>i < ?n. v_linearization r ! i
            = (v_linearization p ! i
               + (if f_compute_linearization p
                  then (\<Sum>scenario \<leftarrow> scs. the (linearization_update (solve env scenario)) i)
                  else 0)) / real S
              + investment_slope p i"
  proof (intro allI impI)
    fix i assume i: "i < ?n"
    have "v_linearization r ! i = v_linearization t ! i + investment_slope p i"
      using i tl tx(1) by (simp add: r_def handle_events_def partial_term_def inv)
    moreover have "v_linearization t ! i = v_linearization s3 ! i / real S"
      using i lin3(1) by (simp add: t_def)
    ultimately show "v_linearization r ! i
            = (v_linearization p ! i
               + (if f_compute_linearization p
                  then (\<Sum>scenario \<leftarrow> scs. the (linearization_update (solve env scenario)) i)
                  else 0)) / real S
              + investment_slope p i"
      using lin3(2) i by simp
  qed
  have p5: "events_handled r = Suc (events_handled p)"
    "f_violated_constraint r = f_violated_constraint p"
    "f_ignore_modifications r = f_ignore_modifications p"
    using fr(3,11) by (simp_all add: r_def handle_events_def partial_term_def t_def started_def)
  show ?thesis using eq[unfolded s3_def] p1 p2 p3 p4 p5 by blast
qed

lemma prepared_fields:
  "v_Block (prepared s) = v_Block s" "f_id (prepared s) = f_id s" "is_locked (prepared s) = is_locked s"
  "events_handled (prepared s) = events_handled s" "scenarios_solved (prepared s) = scenarios_solved s"
  "f_compute_linearization (prepared s) = f_compute_linearization s"
  "f_ignore_modifications (prepared s) = f_ignore_modifications s"
  "v_x (prepared s) = v_x s" "v_installed_quantity (prepared s) = v_installed_quantity s"
  "v_linearization (prepared s) = replicate (length (v_x s)) 0"
  "f_violated_constraint (prepared s) = (Inf_Index, eLHS)"
  "\<not> f_has_diagonal_linearization (prepared s)"
  by (simp_all add: prepared_def reset_linearization_def)

lemma prepared_ready: "blocks_ready (prepared s) = blocks_ready s"
  by (simp add: blocks_ready_def prepared_fields)

lemma prepared_investment:
  "investment_term (prepared s) = investment_term s"
  "investment_slope (prepared s) = investment_slope s"
  by (rule investment_cong; simp add: prepared_def reset_linearization_def)+

lemma number_scenarios_hd:
  "v_Block s \<noteq> [] \<Longrightarrow> get_number_scenarios s = scenario_set_size (hd (v_Block s))"
  by (cases "v_Block s") (simp_all add: get_number_scenarios_def)

lemma scenario_fails_started:
  "scenario_fails env (started (prepared s)) = scenario_fails env s"
  by (simp add: scenario_fails_def started_def prepared_fields fun_eq_iff)

lemma evaluate_prepared:
  assumes "blocks_ready s" "\<not> update_blocks_throws env"
  shows "evaluate env (prepared s) =
     (case scenario_loop env [0 ..< get_number_scenarios s] (False, kError, 0, started (prepared s)) of
        Inl e \<Rightarrow> Inl e
      | Inr (interrupt_loop, error_status, simulation_value, s3) \<Rightarrow>
          if interrupt_loop
          then interrupted_return (owned_at_entry (prepared s)) (map solver_id (v_Block s)) s3
          else finish_evaluation (owned_at_entry (prepared s)) (map solver_id (v_Block s))
                 (get_number_scenarios s) (f_ignore_modifications s) simulation_value s3)"
proof -
  have ne: "v_Block s \<noteq> []" using assms(1) by (simp add: blocks_ready_def)
  have r: "blocks_ready (prepared s)" using assms(1) by (simp add: prepared_ready)
  have ne': "v_Block (prepared s) \<noteq> []" using ne by (simp add: prepared_fields)
  show ?thesis
    unfolding evaluate_ready[OF r] number_scenarios_hd[OF ne]
      run_scenarios_started[OF assms(2) ne'] prepared_fields ..
qed

lemma compute_success:
  assumes "changedvars \<or> \<not> f_blocks_are_updated s" "constraints_sized s"
    "0 \<le> f_constraints_tolerance s" "linear_constraints_hold s"
    "blocks_ready s" "\<not> update_blocks_throws env" "0 < get_number_scenarios s"
    "\<forall>scenario < get_number_scenarios s. \<not> scenario_fails env s scenario"
    "v_installed_quantity s = [] \<or> length (v_x s) \<le> length (v_installed_quantity s)"
  shows "\<exists>r. compute env changedvars s = Inr r
     \<and> f_status r = kOK \<and> f_has_value r
     \<and> f_has_diagonal_linearization r = f_compute_linearization s
     \<and> f_value r = Fin (operational_value env (get_number_scenarios s)
                          + (\<Sum>i \<leftarrow> [0 ..< length (v_x s)]. investment_term s i))
     \<and> length (v_linearization r) = length (v_x s)
     \<and> (\<forall>i < length (v_x s).
          v_linearization r ! i
            = (if f_compute_linearization s
               then operational_linearization env (get_number_scenarios s) i else 0)
              + investment_slope s i)
     \<and> events_handled r = Suc (events_handled s) \<and> v_Block r = v_Block s
     \<and> f_violated_constraint r = (Inf_Index, eLHS)"
proof -
  let ?S = "get_number_scenarios s"
  let ?p = "prepared s"
  have r: "blocks_ready ?p" using assms(5) by (simp add: prepared_ready)
  have nf: "\<forall>scenario \<in> set [0 ..< ?S]. \<not> scenario_fails env (started ?p) scenario"
    using assms(8) by (simp add: scenario_fails_started)
  have loop: "scenario_loop env [0 ..< ?S] (False, kError, 0, started ?p) =
     Inr (False, kError, 0 + (\<Sum>scenario \<leftarrow> [0 ..< ?S]. solver_value (solve env scenario)),
          scenarios_done env [0 ..< ?S] (started ?p))"
    using slots_free_started[OF r] nf by (rule scenario_loop_ok)
  have iq: "v_installed_quantity ?p = [] \<or> length (v_x ?p) \<le> length (v_installed_quantity ?p)"
    using assms(9) by (simp add: prepared_fields)
  have ll: "length (v_linearization ?p) = length (v_x ?p)" by (simp add: prepared_fields)
  from finish_evaluation_ok[OF r assms(7) iq ll,
      of "0 + (\<Sum>scenario \<leftarrow> [0 ..< ?S]. solver_value (solve env scenario))" env "[0 ..< ?S]"]
  obtain res where res:
    "finish_evaluation (owned_at_entry ?p) (map solver_id (v_Block ?p)) ?S
               (f_ignore_modifications ?p)
               (0 + (\<Sum>scenario \<leftarrow> [0 ..< ?S]. solver_value (solve env scenario)))
               (scenarios_done env [0 ..< ?S] (started ?p)) = Inr res"
    "f_status res = kOK" "f_has_value res"
    "f_has_diagonal_linearization res = f_compute_linearization ?p"
    "f_value res = Fin ((0 + (\<Sum>scenario \<leftarrow> [0 ..< ?S]. solver_value (solve env scenario))) / real ?S
                     + (\<Sum>i \<leftarrow> [0 ..< length (v_x ?p)]. investment_term ?p i))"
    "length (v_linearization res) = length (v_x ?p)"
    "\<forall>i < length (v_x ?p).
          v_linearization res ! i
            = (v_linearization ?p ! i
               + (if f_compute_linearization ?p
                  then (\<Sum>scenario \<leftarrow> [0 ..< ?S]. the (linearization_update (solve env scenario)) i)
                  else 0)) / real ?S
              + investment_slope ?p i"
    "events_handled res = Suc (events_handled ?p)" "v_Block res = v_Block ?p"
    "f_violated_constraint res = f_violated_constraint ?p"
    by blast
  have c: "compute env changedvars s = Inr res"
    unfolding compute_feasible[OF assms(1-4)] evaluate_prepared[OF assms(5,6)] loop
    using res(1) by (simp add: prepared_fields)
  have v: "f_value res = Fin (operational_value env ?S
                          + (\<Sum>i \<leftarrow> [0 ..< length (v_x s)]. investment_term s i))"
    using res(5) by (simp add: operational_value_def prepared_fields prepared_investment)
  have l: "\<forall>i < length (v_x s).
          v_linearization res ! i
            = (if f_compute_linearization s then operational_linearization env ?S i else 0)
              + investment_slope s i"
    using res(7) by (simp add: operational_linearization_def prepared_fields prepared_investment)
  show ?thesis
    using c res(2,3,4,6,8,9,10) v l by (simp add: prepared_fields)
qed

lemma compute_interrupted:
  assumes "changedvars \<or> \<not> f_blocks_are_updated s" "constraints_sized s"
    "0 \<le> f_constraints_tolerance s" "linear_constraints_hold s"
    "blocks_ready s" "\<not> update_blocks_throws env"
    "\<exists>scenario < get_number_scenarios s. \<not> has_var_solution (solve env scenario)"
    "\<forall>scenario < get_number_scenarios s. has_var_solution (solve env scenario)
       \<longrightarrow> \<not> scenario_fails env s scenario"
  shows "\<exists>r. compute env changedvars s = Inr r
     \<and> f_status r = kError \<and> f_value r = worst_of s
     \<and> (\<forall>l \<in> set (is_locked r). \<not> l) \<and> length (is_locked r) = length (v_Block s)
     \<and> events_handled r = Suc (events_handled s) \<and> v_Block r = v_Block s
     \<and> \<not> f_has_diagonal_linearization r"
proof -
  let ?S = "get_number_scenarios s"
  let ?p = "prepared s"
  have r: "blocks_ready ?p" using assms(5) by (simp add: prepared_ready)
  have ex: "\<exists>scenario \<in> set [0 ..< ?S]. scenario_fails env (started ?p) scenario"
    using assms(7) by (auto simp add: scenario_fails_started scenario_fails_def)
  have np: "\<forall>scenario \<in> set [0 ..< ?S]. scenario_fails env (started ?p) scenario
           \<longrightarrow> \<not> has_var_solution (solve env scenario)"
    using assms(8) by (auto simp add: scenario_fails_started)
  from scenario_loop_fails[OF slots_free_started[OF r] ex np, of kError 0]
  obtain es' sim' s3 where l:
    "scenario_loop env [0 ..< ?S] (False, kError, 0, started ?p) = Inr (True, es', sim', s3)"
    "scenario_frame (started ?p) s3" "slots_free s3" "length (is_locked s3) = length (v_Block s3)"
    by blast
  from interrupted_return_ok[OF l(2,3,4) r]
  obtain res where res:
    "interrupted_return (owned_at_entry ?p) (map solver_id (v_Block ?p)) s3 = Inr res"
    "f_status res = kError" "f_value res = worst_of ?p"
    "\<forall>l \<in> set (is_locked res). \<not> l" "length (is_locked res) = length (v_Block ?p)"
    "events_handled res = Suc (events_handled ?p)" "v_Block res = v_Block ?p"
    "f_has_diagonal_linearization res = f_has_diagonal_linearization ?p"
    by blast
  have c: "compute env changedvars s = Inr res"
    unfolding compute_feasible[OF assms(1-4)] evaluate_prepared[OF assms(5,6)] l(1)
    using res(1) by (simp add: prepared_fields)
  show ?thesis
    using c res(2-8) by (simp add: prepared_fields worst_of_def)
qed

lemma compute_infeasible_result:
  assumes "changedvars \<or> \<not> f_blocks_are_updated s" "constraints_sized s"
    "0 \<le> f_constraints_tolerance s" "\<not> linear_constraints_hold s"
    "v_Block s \<noteq> []" "0 < time_horizon (hd (v_Block s))"
  shows "\<exists>r. compute env changedvars s = Inr r
     \<and> f_status r = kOK \<and> f_value r = worst_of s
     \<and> scenarios_solved r = scenarios_solved s
     \<and> events_handled r = Suc (events_handled s)
     \<and> map_sum id fst (has_linearization True r) = Inr False
     \<and> map_sum id fst (has_linearization False r) = Inr True"
proof -
  obtain v where v: "fst v < length (v_A s)"
    and c: "compute env changedvars s = map_sum Throws (infeasible_return s v) (worst_value s)"
    using compute_infeasible[OF assms(1-4)] by blast
  define r where "r = infeasible_return s v (worst_of s)"
  have c': "compute env changedvars s = Inr r"
    unfolding c worst_value_ready[OF assms(5,6)] r_def by simp
  have f: "f_status r = kOK" "f_value r = worst_of s" "scenarios_solved r = scenarios_solved s"
    "events_handled r = Suc (events_handled s)" "\<not> f_has_diagonal_linearization r"
    "f_violated_constraint r = v" "v_A r = v_A s" "v_x r = v_x s"
    "v_linearization r = replicate (length (v_x s)) 0"
    by (simp_all add: r_def infeasible_return_def with_violation_def prepared_def
        reset_linearization_def handle_events_def)
  have row: "length (v_A s ! fst v) = length (v_x s)"
    using assms(2) v by (simp add: constraints_sized_def columns_match_def)
  have lt: "fst v < Inf_Index" using v assms(2) by (simp add: constraints_sized_def)
  have d: "map_sum id fst (has_linearization True r) = Inr False"
    using f(5) by (simp add: has_linearization_def)
  have vl: "map_sum id fst (has_linearization False r) = Inr True"
    using v row lt by (simp add: has_linearization_def Let_def f)
  show ?thesis using c' f(1-4) d vl by blast
qed

lemma worst_value_infinite: "worst_value s = Inr w \<Longrightarrow> w = PosInf \<or> w = NegInf"
  by (cases "v_Block s") (auto simp add: worst_value_def split: if_splits)

lemma compute_infeasible_only:
  assumes "changedvars \<or> \<not> f_blocks_are_updated s" "constraints_sized s"
    "0 \<le> f_constraints_tolerance s" "\<not> linear_constraints_hold s"
    "compute env changedvars s = Inr r"
  shows "\<not> f_has_diagonal_linearization r \<and> (f_value r = PosInf \<or> f_value r = NegInf)"
proof -
  obtain v where
    c: "compute env changedvars s = map_sum Throws (infeasible_return s v) (worst_value s)"
    using compute_infeasible[OF assms(1-4)] by blast
  obtain w where w: "worst_value s = Inr w" and r: "r = infeasible_return s v w"
    using assms(5) unfolding c by (cases "worst_value s") simp_all
  have "\<not> f_has_diagonal_linearization r" "f_value r = w"
    by (simp_all add: r infeasible_return_def with_violation_def prepared_def
        reset_linearization_def handle_events_def)
  then show ?thesis using worst_value_infinite[OF w] by simp
qed

lemma one_asset_ready:
  "constraints_sized (one_asset x)" "0 \<le> f_constraints_tolerance (one_asset x)"
  "linear_constraints_hold (one_asset x)" "blocks_ready (one_asset x)"
  "get_number_scenarios (one_asset x) = 1"
  "v_installed_quantity (one_asset x) = [] \<or>
     length (v_x (one_asset x)) \<le> length (v_installed_quantity (one_asset x))"
  "length (v_x (one_asset x)) = 1" "worst_of (one_asset x) = PosInf"
  "v_Block (one_asset x) = [one_scenario_block]" "events_handled (one_asset x) = 0"
  "f_compute_linearization (one_asset x)" "v_installed_quantity (one_asset x) = [4]"
  by (simp_all add: constraints_sized_def columns_match_def linear_constraints_hold_def
      blocks_ready_def get_number_scenarios_def worst_of_def example_defs)

lemma one_asset_terms:
  "investment_term (one_asset 2) 0 = 6" "investment_slope (one_asset 2) 0 = - 3"
  "investment_term (one_asset 6) 0 = 20" "investment_slope (one_asset 6) 0 = 10"
  by (simp_all add: investment_term_def investment_slope_def installed_quantity_of_def
      get_var_value_def get_cost_def get_disinvestment_cost_def example_defs)

lemma zero_cost_environment_facts:
  "\<not> update_blocks_throws zero_cost_environment"
  "\<not> scenario_fails zero_cost_environment s scenario"
  "operational_value zero_cost_environment (Suc 0) = 0"
  "operational_linearization zero_cost_environment (Suc 0) i = 0"
  by (simp_all add: scenario_fails_def operational_value_def operational_linearization_def
      zero_cost_environment_def)

lemma no_solution_environment_facts:
  "\<not> update_blocks_throws no_solution_environment"
  "scenario_fails no_solution_environment s scenario"
  by (simp_all add: scenario_fails_def no_solution_environment_def)

lemma two_assets_infeasible:
  "constraints_sized two_assets" "0 \<le> f_constraints_tolerance two_assets"
  "\<not> linear_constraints_hold two_assets" "v_Block two_assets \<noteq> []"
  "0 < time_horizon (hd (v_Block two_assets))" "worst_of two_assets = PosInf"
  "scenarios_solved two_assets = []"
  by (simp_all add: constraints_sized_def columns_match_def linear_constraints_hold_def
      constraint_value_def get_var_value_def upper_side_holds_def lower_side_holds_def
      worst_of_def Inf_Index_def example_defs)

text \<open>
  Claim C2, the feasibility law, as the code has it. Whenever \<^verbatim>\<open>compute\<close> evaluates (the
  variables have changed or the Blocks are not updated) on constraint data of matching sizes
  with a tolerance that is not negative:
  \<^item> if it returns a finite value, or makes the diagonal linearization available, then every
    linear constraint holds at the point within the relative tolerance;
  \<^item> if every linear constraint holds and the evaluation of the scenarios succeeds (the
    sub-Blocks are ready, updating them does not throw, there is a scenario, no scenario
    fails), then it returns a finite value, and \<^verbatim>\<open>has_linearization( true )\<close> returns the
    parameter \<^verbatim>\<open>intComputeLinearization\<close>;
  \<^item> if some linear constraint is violated and the first sub-Block has a stage, then it
    returns the worst value with status \<^verbatim>\<open>kOK\<close>, solves no scenario,
    \<^verbatim>\<open>has_linearization( true )\<close> returns false and \<^verbatim>\<open>has_linearization( false )\<close> returns true.
\<close>

theorem feasibility_law:
  assumes "changedvars \<or> \<not> f_blocks_are_updated s" and "constraints_sized s"
    and "0 \<le> f_constraints_tolerance s"
  shows
    "(\<forall>s'. compute env changedvars s = Inr s'
          \<and> ((\<exists>v. f_value s' = Fin v) \<or> map_sum id fst (has_linearization True s') = Inr True)
        \<longrightarrow> linear_constraints_hold s)
   \<and> (linear_constraints_hold s \<and> blocks_ready s \<and> \<not> update_blocks_throws env
        \<and> 0 < get_number_scenarios s
        \<and> (\<forall>scenario < get_number_scenarios s. \<not> scenario_fails env s scenario)
        \<and> (v_installed_quantity s = [] \<or> length (v_x s) \<le> length (v_installed_quantity s))
        \<longrightarrow> (\<exists>s' v. compute env changedvars s = Inr s' \<and> f_value s' = Fin v
               \<and> map_sum id fst (has_linearization True s') = Inr (f_compute_linearization s)))
   \<and> (\<not> linear_constraints_hold s \<and> v_Block s \<noteq> [] \<and> 0 < time_horizon (hd (v_Block s))
        \<longrightarrow> (\<exists>s'. compute env changedvars s = Inr s' \<and> f_status s' = kOK
               \<and> f_value s' = worst_of s
               \<and> scenarios_solved s' = scenarios_solved s
               \<and> map_sum id fst (has_linearization True s') = Inr False
               \<and> map_sum id fst (has_linearization False s') = Inr True))"
proof (intro conjI allI impI)
  fix s'
  assume a: "compute env changedvars s = Inr s'
          \<and> ((\<exists>v. f_value s' = Fin v) \<or> map_sum id fst (has_linearization True s') = Inr True)"
  show "linear_constraints_hold s"
  proof (rule ccontr)
    assume n: "\<not> linear_constraints_hold s"
    have "\<not> f_has_diagonal_linearization s' \<and> (f_value s' = PosInf \<or> f_value s' = NegInf)"
      using compute_infeasible_only[OF assms n] a by blast
    then show False using a by (auto simp add: has_linearization_def)
  qed
next
  assume a: "linear_constraints_hold s \<and> blocks_ready s \<and> \<not> update_blocks_throws env
        \<and> 0 < get_number_scenarios s
        \<and> (\<forall>scenario < get_number_scenarios s. \<not> scenario_fails env s scenario)
        \<and> (v_installed_quantity s = [] \<or> length (v_x s) \<le> length (v_installed_quantity s))"
  have h: "linear_constraints_hold s" "blocks_ready s" "\<not> update_blocks_throws env"
    "0 < get_number_scenarios s"
    "\<forall>scenario < get_number_scenarios s. \<not> scenario_fails env s scenario"
    "v_installed_quantity s = [] \<or> length (v_x s) \<le> length (v_installed_quantity s)"
    using a by blast+
  obtain r where r: "compute env changedvars s = Inr r"
    "f_has_diagonal_linearization r = f_compute_linearization s"
    "f_value r = Fin (operational_value env (get_number_scenarios s)
                          + (\<Sum>i \<leftarrow> [0 ..< length (v_x s)]. investment_term s i))"
    using compute_success[OF assms h] by (elim exE conjE) (rule that; assumption)
  have "map_sum id fst (has_linearization True r) = Inr (f_compute_linearization s)"
    using r(2) by (simp add: has_linearization_def)
  then show "\<exists>s' v. compute env changedvars s = Inr s' \<and> f_value s' = Fin v
               \<and> map_sum id fst (has_linearization True s') = Inr (f_compute_linearization s)"
    using r(1,3) by blast
next
  assume a: "\<not> linear_constraints_hold s \<and> v_Block s \<noteq> [] \<and> 0 < time_horizon (hd (v_Block s))"
  show "\<exists>s'. compute env changedvars s = Inr s' \<and> f_status s' = kOK
               \<and> f_value s' = worst_of s
               \<and> scenarios_solved s' = scenarios_solved s
               \<and> map_sum id fst (has_linearization True s') = Inr False
               \<and> map_sum id fst (has_linearization False s') = Inr True"
  proof -
    have h: "\<not> linear_constraints_hold s" "v_Block s \<noteq> []" "0 < time_horizon (hd (v_Block s))"
      using a by blast+
    show ?thesis using compute_infeasible_result[OF assms h] by blast
  qed
qed

text \<open>
  The theorem at the one-asset example, which is feasible and gets a finite value and a
  diagonal linearization, and at the two-asset example at (3, 1) with \<open>x\<^sub>0 + x\<^sub>1 \<le> 2\<close>, which
  gets \<open>+\<infinity>\<close>, no scenario solved and a vertical linearization.
\<close>

theorem feasibility_law_witness:
  "(\<exists>s' v. compute zero_cost_environment True (one_asset 2) = Inr s' \<and> f_value s' = Fin v
       \<and> map_sum id fst (has_linearization True s') = Inr True)
   \<and> (\<exists>s'. compute zero_cost_environment True two_assets = Inr s' \<and> f_status s' = kOK
       \<and> f_value s' = PosInf \<and> scenarios_solved s' = []
       \<and> map_sum id fst (has_linearization True s') = Inr False
       \<and> map_sum id fst (has_linearization False s') = Inr True)"
proof
  from feasibility_law[of True "one_asset 2" zero_cost_environment, OF _ one_asset_ready(1,2)]
  show "\<exists>s' v. compute zero_cost_environment True (one_asset 2) = Inr s' \<and> f_value s' = Fin v
       \<and> map_sum id fst (has_linearization True s') = Inr True"
    by (simp add: one_asset_ready zero_cost_environment_facts)
next
  from feasibility_law[of True two_assets zero_cost_environment, OF _ two_assets_infeasible(1,2)]
  show "\<exists>s'. compute zero_cost_environment True two_assets = Inr s' \<and> f_status s' = kOK
       \<and> f_value s' = PosInf \<and> scenarios_solved s' = []
       \<and> map_sum id fst (has_linearization True s') = Inr False
       \<and> map_sum id fst (has_linearization False s') = Inr True"
    by (simp add: two_assets_infeasible)
qed

text \<open>
  Feasibility alone does not give a finite value and a diagonal linearization. The one-asset
  example has no linear constraint, so every constraint holds at \<open>x = 2\<close>. With an inner solver
  that finds no primal solution \<^verbatim>\<open>compute\<close> returns \<open>+\<infinity>\<close> and no diagonal linearization; with
  the parameter \<^verbatim>\<open>intComputeLinearization\<close> switched off it returns the finite value 6 and
  \<^verbatim>\<open>has_linearization( true )\<close> still returns false.
\<close>

theorem feasible_point_counterexample:
  "linear_constraints_hold (one_asset 2)
   \<and> (\<exists>s'. compute no_solution_environment True (one_asset 2) = Inr s' \<and> f_value s' = PosInf
         \<and> map_sum id fst (has_linearization True s') = Inr False)
   \<and> (\<exists>s'. compute zero_cost_environment True ((one_asset 2)\<lparr> f_compute_linearization := False \<rparr>)
                 = Inr s' \<and> f_value s' = Fin 6
         \<and> map_sum id fst (has_linearization True s') = Inr False)"
proof (intro conjI)
  show "linear_constraints_hold (one_asset 2)" by (rule one_asset_ready)
  show "\<exists>s'. compute no_solution_environment True (one_asset 2) = Inr s' \<and> f_value s' = PosInf
         \<and> map_sum id fst (has_linearization True s') = Inr False"
    by (simp add: compute_defs example_defs no_solution_environment_def has_linearization_def)
  show "\<exists>s'. compute zero_cost_environment True ((one_asset 2)\<lparr> f_compute_linearization := False \<rparr>)
                 = Inr s' \<and> f_value s' = Fin 6
         \<and> map_sum id fst (has_linearization True s') = Inr False"
    by (simp add: compute_defs example_defs has_linearization_def)
qed

text \<open>
  Claim C4. On every successful evaluation (the point is feasible, the sub-Blocks are ready,
  updating them does not throw, there is a scenario and none fails) \<^verbatim>\<open>compute\<close> returns
  status \<^verbatim>\<open>kOK\<close>, and its value is the expected operational cost plus, for every asset \<open>i\<close>,
  \<open>cost\<^sub>i (\<xi>\<^sub>i - q\<^sub>i)\<close> when \<open>\<xi>\<^sub>i > q\<^sub>i\<close> and \<open>disinvestment_cost\<^sub>i (q\<^sub>i - \<xi>\<^sub>i)\<close> otherwise; component
  \<open>i\<close> of the linearization is the expected operational component plus \<open>cost\<^sub>i\<close> in the first
  case and minus \<open>disinvestment_cost\<^sub>i\<close> in the second.
\<close>

theorem compute_adds_investment_term:
  assumes "changedvars \<or> \<not> f_blocks_are_updated s" and "constraints_sized s"
    and "0 \<le> f_constraints_tolerance s" and "linear_constraints_hold s"
    and "blocks_ready s" and "\<not> update_blocks_throws env" and "0 < get_number_scenarios s"
    and "\<forall>scenario < get_number_scenarios s. \<not> scenario_fails env s scenario"
    and "v_installed_quantity s = [] \<or> length (v_x s) \<le> length (v_installed_quantity s)"
  shows "\<exists>s'. compute env changedvars s = Inr s' \<and> f_status s' = kOK
     \<and> f_value s' = Fin (operational_value env (get_number_scenarios s)
                          + (\<Sum>i \<leftarrow> [0 ..< length (v_x s)]. investment_term s i))
     \<and> length (v_linearization s') = length (v_x s)
     \<and> (\<forall>i < length (v_x s).
          v_linearization s' ! i
            = (if f_compute_linearization s
               then operational_linearization env (get_number_scenarios s) i else 0)
              + investment_slope s i)"
  using compute_success[OF assms] by blast

text \<open>
  The theorem at the example of the spec: one asset, installed quantity 4, cost 10,
  disinvestment cost 3, zero operational cost. At \<open>x = 2\<close> the value is 6 and the linearization
  (-3), at \<open>x = 6\<close> the value is 20 and the linearization (10).
\<close>

theorem compute_adds_investment_term_witness:
  "(\<exists>s'. compute zero_cost_environment True (one_asset 2) = Inr s' \<and> f_status s' = kOK
       \<and> f_value s' = Fin 6 \<and> v_linearization s' ! 0 = - 3)
   \<and> (\<exists>s'. compute zero_cost_environment True (one_asset 6) = Inr s' \<and> f_status s' = kOK
       \<and> f_value s' = Fin 20 \<and> v_linearization s' ! 0 = 10)"
proof
  have "\<forall>scenario < get_number_scenarios (one_asset 2).
          \<not> scenario_fails zero_cost_environment (one_asset 2) scenario"
    by (simp add: zero_cost_environment_facts)
  from compute_adds_investment_term[of True "one_asset 2" zero_cost_environment, OF _
      one_asset_ready(1-4) zero_cost_environment_facts(1) _ this one_asset_ready(6)]
  show "\<exists>s'. compute zero_cost_environment True (one_asset 2) = Inr s' \<and> f_status s' = kOK
       \<and> f_value s' = Fin 6 \<and> v_linearization s' ! 0 = - 3"
    by (auto simp add: one_asset_ready one_asset_terms zero_cost_environment_facts)
next
  have "\<forall>scenario < get_number_scenarios (one_asset 6).
          \<not> scenario_fails zero_cost_environment (one_asset 6) scenario"
    by (simp add: zero_cost_environment_facts)
  from compute_adds_investment_term[of True "one_asset 6" zero_cost_environment, OF _
      one_asset_ready(1-4) zero_cost_environment_facts(1) _ this one_asset_ready(6)]
  show "\<exists>s'. compute zero_cost_environment True (one_asset 6) = Inr s' \<and> f_status s' = kOK
       \<and> f_value s' = Fin 20 \<and> v_linearization s' ! 0 = 10"
    by (auto simp add: one_asset_ready one_asset_terms zero_cost_environment_facts)
qed

text \<open>
  Claim C6. When a scenario's solver finds no primal solution, \<^verbatim>\<open>compute\<close> returns as the
  claim says (lemma \<open>compute_interrupted\<close>). When the update of the linearization throws, it
  does not: the exception is thrown inside the critical block and the handler is outside of
  it, so the program is terminated and \<^verbatim>\<open>compute\<close> returns nothing. The one-asset example
  with an inner solver that has a primal solution and no dual solution, for which
  \<^verbatim>\<open>update_linearization\<close> throws "dual solution not available":
\<close>

theorem compute_update_throws_terminated:
  "has_var_solution (solve no_dual_environment 0)
   \<and> linearization_update (solve no_dual_environment 0) = None
   \<and> f_compute_linearization (one_asset 6)
   \<and> compute no_dual_environment True (one_asset 6) = Inl Terminated"
  by (simp add: compute_defs example_defs no_dual_environment_def)

section \<open>Theorems about the state bridge\<close>

lemma is_prefix_iff: "is_prefix xs ys \<longleftrightarrow> (\<exists>zs. ys = xs @ zs)"
  by (induction xs ys rule: is_prefix.induct) auto

lemma is_prefix_append [simp]: "is_prefix xs (xs @ ys)"
  by (simp add: is_prefix_iff)

lemma is_prefix_trans: "is_prefix xs ys \<Longrightarrow> is_prefix ys zs \<Longrightarrow> is_prefix xs zs"
  by (auto simp add: is_prefix_iff)

lemma is_prefix_antisym: "is_prefix xs ys \<Longrightarrow> is_prefix ys xs \<Longrightarrow> xs = ys"
  by (auto simp add: is_prefix_iff)

lemma is_prefix_snoc: "is_prefix xs (ys @ [y]) \<longleftrightarrow> xs = ys @ [y] \<or> is_prefix xs ys"
proof (induction xs ys rule: is_prefix.induct)
  case (1 ys) then show ?case by simp
next
  case (2 x xs) then show ?case by (cases xs) auto
next
  case (3 x xs y' ys) then show ?case by auto
qed


lemma last_in_range: "0 < n \<Longrightarrow> n \<le> m \<Longrightarrow> n - Suc 0 < (m :: nat)"
  by arith

lemma read_flow_rates_ok:
  assumes "\<forall>g \<in> set gs. g < length (flow_rate pu) \<and> hydro_time_horizon pu \<le> length (flow_rate pu ! g)"
    and "0 < hydro_time_horizon pu"
  shows "read_flow_rates pu gs = Inr (map (\<lambda>g. flow_rate pu ! g ! (hydro_time_horizon pu - 1)) gs)"
  using assms by (induction gs) (simp_all add: read_at_def last_time_def last_in_range)

lemma hydro_readable:
  assumes "unit_readable (HydroUnitBlock pu)"
  shows "read_flow_rates pu [0 ..< hydro_number_generators pu] = Inr (last_flow_rates pu)"
  unfolding last_flow_rates_def
proof (rule read_flow_rates_ok)
  show "0 < hydro_time_horizon pu" using assms by (simp add: unit_readable_def)
  show "\<forall>g \<in> set [0 ..< hydro_number_generators pu].
          g < length (flow_rate pu) \<and> hydro_time_horizon pu \<le> length (flow_rate pu ! g)"
    using assms by (auto simp add: unit_readable_def list_all_length)
qed

lemma update_unit_hydro:
  assumes "as_hydro d = Some u" "as_hydro pd = Some pu"
    "hydro_number_generators u = hydro_number_generators pu" "unit_readable pd"
  shows "update_unit up pd d = Inr (HydroUnitBlock (u\<lparr> initial_flow_rate := last_flow_rates pu \<rparr>))"
proof -
  have pd: "pd = HydroUnitBlock pu" using assms(2) by (cases pd) simp_all
  show ?thesis
    using assms(1,3) hydro_readable[OF assms(4)[unfolded pd]]
    by (simp add: update_unit_def update_hydro_unit_def pd)
qed

lemma update_unit_same_kind:
  assumes "same_kind d pd" "unit_readable pd" "never_fails up"
  shows "\<exists>d'. update_unit up pd d = Inr d'"
proof (cases "as_hydro d")
  case (Some u)
  then obtain pu where pu: "as_hydro pd = Some pu" and n: "hydro_number_generators u = hydro_number_generators pu"
    using assms(1) by (cases "as_hydro pd") (simp_all add: same_kind_def)
  show ?thesis using update_unit_hydro[OF Some pu n assms(2)] by blast
next
  case None
  then have pn: "as_hydro pd = None"
    and k: "(as_thermal d = None \<longleftrightarrow> as_thermal pd = None)" "(as_battery d = None \<longleftrightarrow> as_battery pd = None)"
    using assms(1) by (cases "as_hydro pd"; simp add: same_kind_def)+
  have h: "update_hydro_unit pd d = Inr (False, d)"
    by (simp add: update_hydro_unit_def None pn)
  show ?thesis
  proof (cases "as_thermal d")
    case (Some u)
    then obtain pu where pu: "as_thermal pd = Some pu" using k(1) by (cases "as_thermal pd") simp_all
    then have pd: "pd = ThermalUnitBlock pu" by (cases pd) simp_all
    obtain u' where u': "(case up of None \<Rightarrow> Inr u
                 | Some f \<Rightarrow> (case f pu u of Inl e \<Rightarrow> Inl e
                      | Inr t \<Rightarrow> Inr (u\<lparr> init_updown_time := t \<rparr>))) = (Inr u' :: error + ThermalUnit)"
    proof (cases up)
      case None then show ?thesis using that by simp
    next
      case (Some f)
      then obtain t where "f pu u = Inr t" using assms(3) by (auto simp add: never_fails_def)
      then show ?thesis using that Some by simp
    qed
    have "\<exists>d'. update_thermal_unit up pd d = Inr (True, d')"
      using assms(2) unfolding update_thermal_unit_def Some pu pd
      by (simp add: u' unit_readable_def read_at_def last_in_range)
    then show ?thesis using h by (auto simp add: update_unit_def)
  next
    case None
    then have tn: "as_thermal pd = None" using k(1) by simp
    have t: "update_thermal_unit up pd d = Inr (False, d)"
      by (simp add: update_thermal_unit_def None tn)
    show ?thesis
    proof (cases "as_battery d")
      case (Some u)
      then obtain pu where pu: "as_battery pd = Some pu" using k(2) by (cases "as_battery pd") simp_all
      then have pd: "pd = BatteryUnitBlock pu" by (cases pd) simp_all
      have "\<exists>d'. update_battery_unit pd d = Inr (True, d')"
        using assms(2) unfolding update_battery_unit_def Some pu pd
        by (simp add: unit_readable_def read_at_def last_in_range)
      then show ?thesis using h t by (auto simp add: update_unit_def)
    next
      case None
      then have bn: "as_battery pd = None" using k(2) by simp
      show ?thesis using h t by (simp add: update_unit_def update_battery_unit_def None bn)
    qed
  qed
qed

lemma update_unit_other_kind:
  assumes "\<not> same_kind d pd"
  shows "update_unit up pd d = Inl StructureMismatch"
  using assms
  by (cases d; cases pd;
      simp add: same_kind_def update_unit_def update_hydro_unit_def update_thermal_unit_def
        update_battery_unit_def)


lemma subtree_append:
  "subtree (p @ r) T = (case subtree p T of None \<Rightarrow> None | Some b \<Rightarrow> subtree r b)"
  by (induction p arbitrary: T) simp_all

lemma subtree_set_data_below:
  "subtree (p @ i # r) (set_data p d T) = subtree (p @ i # r) T"
  by (induction p arbitrary: T) (simp_all add: nth_list_update)

lemma subtree_set_data_apart:
  "\<not> is_prefix p x \<Longrightarrow> \<not> is_prefix x p \<Longrightarrow> subtree x (set_data p d T) = subtree x T"
proof (induction p arbitrary: x T)
  case Nil then show ?case by simp
next
  case (Cons i p)
  show ?case
  proof (cases x)
    case Nil
    then show ?thesis using Cons.prems by simp
  next
    case (Cons j x')
    show ?thesis
    proof (cases "i = j")
      case True
      then have "\<not> is_prefix p x'" "\<not> is_prefix x' p" using Cons.prems Cons by simp_all
      then have "subtree x' (set_data p d (nested_Blocks T ! j)) = subtree x' (nested_Blocks T ! j)"
        by (rule Cons.IH)
      then show ?thesis using True by (simp add: Cons)
    next
      case False
      then show ?thesis by (simp add: Cons)
    qed
  qed
qed

lemma data_at_set_data_other:
  "\<not> is_prefix p x \<Longrightarrow> data_at x (set_data p d T) = data_at x T"
proof (induction x arbitrary: p T)
  case Nil then show ?case by (cases p) (simp_all add: data_at_def)
next
  case (Cons j x)
  show ?case
  proof (cases p)
    case Nil then show ?thesis using Cons.prems by simp
  next
    case (Cons i p')
    show ?thesis
    proof (cases "i = j")
      case True
      then show ?thesis
        using Cons.IH[of p' "nested_Blocks T ! j"] Cons.prems
        by (simp add: Cons data_at_def)
    next
      case False
      then show ?thesis by (simp add: Cons data_at_def)
    qed
  qed
qed

lemma data_at_set_data_same:
  "subtree p T = Some b \<Longrightarrow> data_at p (set_data p d T) = Some d"
  by (induction p arbitrary: T) (simp_all add: data_at_def split: if_splits)

lemma apart_step:
  assumes "apart (p # ps)"
  shows "apart (ps @ map (\<lambda>i. p @ [i]) [0 ..< n])"
proof -
  have d: "distinct ps" "p \<notin> set ps"
    and a: "\<And>x y. x \<in> set (p # ps) \<Longrightarrow> y \<in> set (p # ps) \<Longrightarrow> is_prefix x y \<Longrightarrow> x = y"
    using assms by (auto simp add: apart_def)
  have c: "\<And>i. p @ [i] \<notin> set ps"
  proof
    fix i assume "p @ [i] \<in> set ps"
    then have "p = p @ [i]" by (intro a) simp_all
    then show False by simp
  qed
  have 1: "distinct (ps @ map (\<lambda>i. p @ [i]) [0 ..< n])"
    using d c by (auto simp add: distinct_map inj_on_def)
  have 2: "x = y" if xin: "x \<in> set (ps @ map (\<lambda>i. p @ [i]) [0 ..< n])"
    and yin: "y \<in> set (ps @ map (\<lambda>i. p @ [i]) [0 ..< n])" and pre: "is_prefix x y" for x y
  proof -
    have mem: "z \<in> set ps \<or> (\<exists>i. z = p @ [i])"
      if "z \<in> set (ps @ map (\<lambda>i. p @ [i]) [0 ..< n])" for z
      using that by auto
    consider "x \<in> set ps" "y \<in> set ps" | i where "x \<in> set ps" "y = p @ [i]"
      | i where "x = p @ [i]" "y \<in> set ps" | i j where "x = p @ [i]" "y = p @ [j]"
      using mem[OF xin] mem[OF yin] by blast
    then show ?thesis
    proof cases
      case 1 then show ?thesis using a pre by simp
    next
      case 2
      then have "x = p @ [i] \<or> is_prefix x p" using pre by (simp add: is_prefix_snoc)
      then show ?thesis
      proof
        assume "x = p @ [i]" then show ?thesis using 2 by simp
      next
        assume "is_prefix x p"
        then have "x = p" using 2 by (intro a) simp_all
        then show ?thesis using 2 d by simp
      qed
    next
      case 3
      then have "is_prefix p y" using pre using is_prefix_trans[OF is_prefix_append] by blast
      then have "p = y" using 3 by (intro a) simp_all
      then show ?thesis using 3 d by simp
    next
      case 4 then show ?thesis using pre by (simp add: is_prefix_iff)
    qed
  qed
  show ?thesis unfolding apart_def using 1 2 by blast
qed

lemma nested_pairs_paths:
  "map fst (nested_pairs p b pb) = map (\<lambda>i. p @ [i]) [0 ..< length (nested_Blocks b)]"
  by (simp add: nested_pairs_def o_def)

lemma points_into_step:
  assumes "apart (map fst ((p, b, pb) # rest))" "points_into ((p, b, pb) # rest) T"
  shows "points_into (rest @ nested_pairs p b pb) (set_data p d T)"
  unfolding points_into_def
proof
  fix e assume "e \<in> set (rest @ nested_pairs p b pb)"
  then consider "e \<in> set rest" | i where "i < length (nested_Blocks b)"
      "e = (p @ [i], nested_Blocks b ! i, nested_Blocks pb ! i)"
    by (auto simp add: nested_pairs_def)
  then show "subtree (fst e) (set_data p d T) = Some (fst (snd e))"
  proof cases
    case 1
    then have m: "fst e \<in> set (map fst rest)" by simp
    have ne: "fst e \<noteq> p" using assms(1) m by (auto simp add: apart_def)
    have a: "x = y" if "x \<in> set (p # map fst rest)" "y \<in> set (p # map fst rest)" "is_prefix x y"
      for x y using assms(1) that unfolding apart_def by simp blast
    have "\<not> is_prefix p (fst e)" using a[of p "fst e"] m ne by auto
    moreover have "\<not> is_prefix (fst e) p" using a[of "fst e" p] m ne by auto
    ultimately have "subtree (fst e) (set_data p d T) = subtree (fst e) T"
      by (rule subtree_set_data_apart)
    then show ?thesis using assms(2) 1 by (simp add: points_into_def)
  next
    case 2
    have "subtree p T = Some b" using assms(2) by (simp add: points_into_def)
    then have "subtree (p @ [i]) T = Some (nested_Blocks b ! i)"
      using 2(1) by (simp add: subtree_append)
    then show ?thesis using subtree_set_data_below[of p i "[]" d T] 2(2) by simp
  qed
qed


lemma nested_pairs_member:
  "i < length (nested_Blocks b) \<Longrightarrow>
   (p @ [i], nested_Blocks b ! i, nested_Blocks pb ! i) \<in> set (nested_pairs p b pb)"
  by (auto simp add: nested_pairs_def)

lemma nested_pairs_prefix:
  "e \<in> set (nested_pairs p b pb) \<Longrightarrow> is_prefix p (fst e) \<and> fst e \<noteq> p"
  by (auto simp add: nested_pairs_def)

lemma callback_loop_result:
  assumes "callback_loop up q T = Inr T'" "apart (map fst q)" "points_into q T"
  shows "(\<forall>e \<in> set q. \<forall>r c pc. subtree r (fst (snd e)) = Some c \<longrightarrow>
            subtree r (snd (snd e)) = Some pc \<longrightarrow>
            (\<exists>d. update_unit up (block_data pc) (block_data c) = Inr d
                \<and> data_at (fst e @ r) T' = Some d))
       \<and> (\<forall>x. (\<forall>e \<in> set q. \<not> is_prefix (fst e) x) \<longrightarrow> data_at x T' = data_at x T)"
  using assms
proof (induction up q T arbitrary: T' rule: callback_loop.induct)
  case (1 up uc_block)
  then show ?case by simp
next
  case (2 up path block previous_block blocks uc_block)
  let ?q' = "blocks @ nested_pairs path block previous_block"
  have n: "length (nested_Blocks block) = length (nested_Blocks previous_block)"
    using "2.prems"(1) by (simp split: if_splits)
  then have nn: "\<not> length (nested_Blocks block) \<noteq> length (nested_Blocks previous_block)"
    by simp
  obtain d where u: "update_unit up (block_data previous_block) (block_data block) = Inr d"
    and rec: "callback_loop up ?q' (set_data path d uc_block) = Inr T'"
    using "2.prems"(1) n by (simp split: sum.splits)
  have ap: "apart (map fst ?q')"
    using apart_step[of path "map fst blocks" "length (nested_Blocks block)"] "2.prems"(2)
    by (simp add: nested_pairs_paths)
  have pi: "points_into ?q' (set_data path d uc_block)"
    using "2.prems"(2,3) by (rule points_into_step)
  note IH = "2.IH"[OF nn u rec ap pi]
  have IH1: "\<exists>d. update_unit up (block_data pc) (block_data c) = Inr d
                \<and> data_at (fst e @ r) T' = Some d"
    if "e \<in> set ?q'" "subtree r (fst (snd e)) = Some c" "subtree r (snd (snd e)) = Some pc"
    for e r c pc using IH that by blast
  have IH2: "data_at x T' = data_at x (set_data path d uc_block)"
    if "\<forall>e \<in> set ?q'. \<not> is_prefix (fst e) x" for x using IH that by blast
  have a: "x = y" if "x \<in> set (path # map fst blocks)" "y \<in> set (path # map fst blocks)"
    "is_prefix x y" for x y
    using "2.prems"(2) that unfolding apart_def by simp blast
  have pn: "path \<notin> set (map fst blocks)" using "2.prems"(2) by (simp add: apart_def)
  have here: "subtree path uc_block = Some block"
    using "2.prems"(3) by (simp add: points_into_def)
  have first: "\<exists>d. update_unit up (block_data pc) (block_data c) = Inr d
                \<and> data_at (path @ r) T' = Some d"
    if c: "subtree r block = Some c" and pc: "subtree r previous_block = Some pc" for r c pc
  proof (cases r)
    case Nil
    have "\<forall>e \<in> set ?q'. \<not> is_prefix (fst e) path"
    proof
      fix e assume "e \<in> set ?q'"
      then consider "e \<in> set blocks" | "e \<in> set (nested_pairs path block previous_block)"
        by auto
      then show "\<not> is_prefix (fst e) path"
      proof cases
        case 1
        then have m: "fst e \<in> set (map fst blocks)" by simp
        show ?thesis using a[of "fst e" path] m pn by auto
      next
        case 2
        show ?thesis using nested_pairs_prefix[OF 2] using is_prefix_antisym by blast
      qed
    qed
    then have "data_at path T' = data_at path (set_data path d uc_block)" by (rule IH2)
    then have "data_at path T' = Some d" using data_at_set_data_same[OF here] by simp
    then show ?thesis using u c pc Nil by simp
  next
    case (Cons i r')
    have i: "i < length (nested_Blocks block)"
      and c': "subtree r' (nested_Blocks block ! i) = Some c"
      using c Cons by (simp_all split: if_splits)
    have pc': "subtree r' (nested_Blocks previous_block ! i) = Some pc"
      using pc Cons by (simp split: if_splits)
    have "\<exists>d. update_unit up (block_data pc) (block_data c) = Inr d
                \<and> data_at (fst (path @ [i], nested_Blocks block ! i, nested_Blocks previous_block ! i) @ r') T' = Some d"
      by (rule IH1) (use nested_pairs_member[OF i] c' pc' in simp_all)
    then show ?thesis by (simp add: Cons)
  qed
  show ?case
  proof (intro conjI ballI allI impI)
    fix e r c pc
    assume e: "e \<in> set ((path, block, previous_block) # blocks)"
      and c: "subtree r (fst (snd e)) = Some c" and pc: "subtree r (snd (snd e)) = Some pc"
    show "\<exists>d. update_unit up (block_data pc) (block_data c) = Inr d
                \<and> data_at (fst e @ r) T' = Some d"
    proof (cases "e \<in> set blocks")
      case True
      then show ?thesis using c pc by (intro IH1) simp_all
    next
      case False
      then have "e = (path, block, previous_block)" using e by simp
      then show ?thesis using first c pc by simp
    qed
  next
    fix x
    assume x: "\<forall>e \<in> set ((path, block, previous_block) # blocks). \<not> is_prefix (fst e) x"
    then have np: "\<not> is_prefix path x" by simp
    have "\<forall>e \<in> set ?q'. \<not> is_prefix (fst e) x"
    proof
      fix e assume "e \<in> set ?q'"
      then consider "e \<in> set blocks" | "e \<in> set (nested_pairs path block previous_block)"
        by auto
      then show "\<not> is_prefix (fst e) x"
      proof cases
        case 1 then show ?thesis using x by simp
      next
        case 2
        show ?thesis using nested_pairs_prefix[OF 2] np
          using is_prefix_trans by blast
      qed
    qed
    then have "data_at x T' = data_at x (set_data path d uc_block)" by (rule IH2)
    then show "data_at x T' = data_at x uc_block"
      using data_at_set_data_other[OF np] by simp
  qed
qed


lemma same_structure_iff:
  "same_structure b pb \<longleftrightarrow>
     same_kind (block_data b) (block_data pb) \<and>
     length (nested_Blocks b) = length (nested_Blocks pb) \<and>
     (\<forall>i < length (nested_Blocks b). same_structure (nested_Blocks b ! i) (nested_Blocks pb ! i))"
  by (cases b; cases pb) (auto simp add: list_all_iff)

lemma readable_iff:
  "readable pb \<longleftrightarrow>
     unit_readable (block_data pb) \<and>
     (\<forall>i < length (nested_Blocks pb). readable (nested_Blocks pb ! i))"
  by (cases pb) (simp add: list_all_length)

lemma nested_pairs_cases:
  assumes "e \<in> set (nested_pairs p b pb)"
  obtains i where "i < length (nested_Blocks b)" "fst (snd e) = nested_Blocks b ! i"
    "snd (snd e) = nested_Blocks pb ! i"
  using assms by (auto simp add: nested_pairs_def)

lemma callback_loop_succeeds:
  assumes "\<forall>e \<in> set q. same_structure (fst (snd e)) (snd (snd e)) \<and> readable (snd (snd e))"
    and "never_fails up"
  shows "\<exists>T'. callback_loop up q T = Inr T'"
  using assms
proof (induction up q T rule: callback_loop.induct)
  case (1 up uc_block)
  then show ?case by simp
next
  case (2 up path block previous_block blocks uc_block)
  let ?q' = "blocks @ nested_pairs path block previous_block"
  have s: "same_structure block previous_block" and r: "readable previous_block"
    using "2.prems"(1) by simp_all
  have n: "length (nested_Blocks block) = length (nested_Blocks previous_block)"
    and k: "same_kind (block_data block) (block_data previous_block)"
    and ch: "\<And>i. i < length (nested_Blocks block) \<Longrightarrow>
               same_structure (nested_Blocks block ! i) (nested_Blocks previous_block ! i)"
    using s same_structure_iff[of block previous_block] by simp_all
  have ur: "unit_readable (block_data previous_block)"
    and rch: "\<And>i. i < length (nested_Blocks previous_block) \<Longrightarrow>
               readable (nested_Blocks previous_block ! i)"
    using r readable_iff[of previous_block] by simp_all
  obtain d where u: "update_unit up (block_data previous_block) (block_data block) = Inr d"
    using update_unit_same_kind[OF k ur "2.prems"(2)] by blast
  have nn: "\<not> length (nested_Blocks block) \<noteq> length (nested_Blocks previous_block)"
    using n by simp
  have good: "\<forall>e \<in> set ?q'. same_structure (fst (snd e)) (snd (snd e)) \<and> readable (snd (snd e))"
  proof
    fix e assume "e \<in> set ?q'"
    then consider "e \<in> set blocks" | "e \<in> set (nested_pairs path block previous_block)"
      by auto
    then show "same_structure (fst (snd e)) (snd (snd e)) \<and> readable (snd (snd e))"
    proof cases
      case 1 then show ?thesis using "2.prems"(1) by simp
    next
      case 2
      then obtain i where "i < length (nested_Blocks block)"
        "fst (snd e) = nested_Blocks block ! i" "snd (snd e) = nested_Blocks previous_block ! i"
        by (rule nested_pairs_cases)
      then show ?thesis using ch rch n by simp
    qed
  qed
  from "2.IH"[OF nn u good "2.prems"(2)]
  show ?case using n u by simp
qed

lemma callback_loop_fails:
  assumes "\<forall>e \<in> set q. readable (snd (snd e))" and "never_fails up"
    and "\<exists>e \<in> set q. \<not> same_structure (fst (snd e)) (snd (snd e))"
  shows "callback_loop up q T = Inl StructureMismatch"
  using assms
proof (induction up q T rule: callback_loop.induct)
  case (1 up uc_block)
  then show ?case by simp
next
  case (2 up path block previous_block blocks uc_block)
  let ?q' = "blocks @ nested_pairs path block previous_block"
  show ?case
  proof (cases "length (nested_Blocks block) = length (nested_Blocks previous_block)")
    case False
    then show ?thesis by simp
  next
    case n: True
    then have nn: "\<not> length (nested_Blocks block) \<noteq> length (nested_Blocks previous_block)"
      by simp
    show ?thesis
    proof (cases "same_kind (block_data block) (block_data previous_block)")
      case False
      then show ?thesis using n update_unit_other_kind[OF False, of up] by simp
    next
      case k: True
      have r: "readable previous_block" using "2.prems"(1) by simp
      have ur: "unit_readable (block_data previous_block)"
        and rch: "\<And>i. i < length (nested_Blocks previous_block) \<Longrightarrow>
               readable (nested_Blocks previous_block ! i)"
        using r readable_iff[of previous_block] by simp_all
      obtain d where u: "update_unit up (block_data previous_block) (block_data block) = Inr d"
        using update_unit_same_kind[OF k ur "2.prems"(2)] by blast
      have rd: "\<forall>e \<in> set ?q'. readable (snd (snd e))"
      proof
        fix e assume "e \<in> set ?q'"
        then consider "e \<in> set blocks" | "e \<in> set (nested_pairs path block previous_block)"
          by auto
        then show "readable (snd (snd e))"
        proof cases
          case 1 then show ?thesis using "2.prems"(1) by simp
        next
          case 2
          then obtain i where "i < length (nested_Blocks block)"
            "snd (snd e) = nested_Blocks previous_block ! i"
            by (rule nested_pairs_cases)
          then show ?thesis using rch n by simp
        qed
      qed
      have bad: "\<exists>e \<in> set ?q'. \<not> same_structure (fst (snd e)) (snd (snd e))"
      proof (cases "same_structure block previous_block")
        case True
        then show ?thesis using "2.prems"(3) by auto
      next
        case False
        then obtain i where i: "i < length (nested_Blocks block)"
          and b: "\<not> same_structure (nested_Blocks block ! i) (nested_Blocks previous_block ! i)"
          using same_structure_iff[of block previous_block] k n by auto
        show ?thesis using nested_pairs_member[OF i, of path previous_block] b by force
      qed
      from "2.IH"[OF nn u rd "2.prems"(2) bad]
      show ?thesis using n u by simp
    qed
  qed
qed


lemma same_structure_subtree:
  "same_structure b pb \<Longrightarrow> subtree r b = Some c \<Longrightarrow> subtree r pb = Some pc \<Longrightarrow>
   same_structure c pc"
proof (induction r arbitrary: b pb)
  case Nil
  then show ?case by simp
next
  case (Cons i r)
  have i: "i < length (nested_Blocks b)" and c: "subtree r (nested_Blocks b ! i) = Some c"
    using Cons.prems(2) by (simp_all split: if_splits)
  have pc: "subtree r (nested_Blocks pb ! i) = Some pc"
    using Cons.prems(3) by (simp split: if_splits)
  have "same_structure (nested_Blocks b ! i) (nested_Blocks pb ! i)"
    using Cons.prems(1) i same_structure_iff[of b pb] by simp
  then show ?case using c pc by (rule Cons.IH)
qed

lemma readable_subtree:
  "readable pb \<Longrightarrow> subtree r pb = Some pc \<Longrightarrow> readable pc"
proof (induction r arbitrary: pb)
  case Nil
  then show ?case by simp
next
  case (Cons i r)
  have i: "i < length (nested_Blocks pb)" and pc: "subtree r (nested_Blocks pb ! i) = Some pc"
    using Cons.prems(2) by (simp_all split: if_splits)
  have "readable (nested_Blocks pb ! i)"
    using Cons.prems(1) i readable_iff[of pb] by simp
  then show ?case using pc by (rule Cons.IH)
qed

lemma callback_hydro:
  assumes "callback up stage previous_uc_block uc_block = Inr uc'" "0 < stage"
    and "same_structure uc_block previous_uc_block" "readable previous_uc_block"
    and "data_at path uc_block = Some (HydroUnitBlock unit)"
    and "data_at path previous_uc_block = Some (HydroUnitBlock previous_unit)"
  shows "data_at path uc'
           = Some (HydroUnitBlock (unit\<lparr> initial_flow_rate := last_flow_rates previous_unit \<rparr>))"
proof -
  obtain c where c: "subtree path uc_block = Some c" "block_data c = HydroUnitBlock unit"
    using assms(5) by (auto simp add: data_at_def)
  obtain pc where pc: "subtree path previous_uc_block = Some pc"
    "block_data pc = HydroUnitBlock previous_unit"
    using assms(6) by (auto simp add: data_at_def)
  have l: "callback_loop up [([], uc_block, previous_uc_block)] uc_block = Inr uc'"
    using assms(1,2) by (simp add: callback_def)
  have "\<exists>d. update_unit up (block_data pc) (block_data c) = Inr d
            \<and> data_at (fst ([] :: nat list, uc_block, previous_uc_block) @ path) uc' = Some d"
    using callback_loop_result[OF l] c(1) pc(1)
    by (simp add: apart_def points_into_def)
  then obtain d where d: "update_unit up (block_data pc) (block_data c) = Inr d"
    "data_at path uc' = Some d" by auto
  have k: "same_kind (block_data c) (block_data pc)"
    using same_structure_subtree[OF assms(3) c(1) pc(1)] same_structure_iff[of c pc] by simp
  then have g: "hydro_number_generators unit = hydro_number_generators previous_unit"
    by (simp add: same_kind_def c(2) pc(2))
  have ur: "unit_readable (block_data pc)"
    using readable_subtree[OF assms(4) pc(1)] readable_iff[of pc] by simp
  have "update_unit up (block_data pc) (block_data c)
      = Inr (HydroUnitBlock (unit\<lparr> initial_flow_rate := last_flow_rates previous_unit \<rparr>))"
    by (rule update_unit_hydro) (use g ur in \<open>simp_all add: c(2) pc(2)\<close>)
  then show ?thesis using d by simp
qed

text \<open>
  Claim C9 (as amended). When \<^verbatim>\<open>callback\<close> bridges stage \<open>t\<close> to stage \<open>t + 1\<close> (so the stage
  it is called with is not 0), the data of stage \<open>t\<close> can be read and the computation of the
  initial up/down time does not fail:
  \<^item> if the two trees have the same structure, the bridge succeeds, and wherever a hydro unit
    of stage \<open>t + 1\<close> is matched with a hydro unit of stage \<open>t\<close>, its initial flow rate is, for
    every generator, the flow rate of that generator at the last time of stage \<open>t\<close>, and
    nothing else of the unit is changed;
  \<^item> if they do not (two matched Blocks differ in the number of nested Blocks, or one of them
    is a hydro, thermal or battery unit and the other is not a unit of that class, or they
    are hydro units with different numbers of generators), the bridge fails with the
    structure error.
  Blocks that are neither hydro, thermal nor battery units are not compared by class.
\<close>

theorem callback_bridges_hydro_units:
  assumes "0 < stage" and "readable previous_uc_block" and "never_fails up"
  shows "(same_structure uc_block previous_uc_block \<longrightarrow>
           (\<exists>uc'. callback up stage previous_uc_block uc_block = Inr uc' \<and>
              (\<forall>path unit previous_unit.
                  data_at path uc_block = Some (HydroUnitBlock unit) \<and>
                  data_at path previous_uc_block = Some (HydroUnitBlock previous_unit) \<longrightarrow>
                  data_at path uc'
                    = Some (HydroUnitBlock
                              (unit\<lparr> initial_flow_rate := last_flow_rates previous_unit \<rparr>)))))
       \<and> (\<not> same_structure uc_block previous_uc_block \<longrightarrow>
           callback up stage previous_uc_block uc_block = Inl StructureMismatch)"
proof (rule conjI; rule impI)
  assume s: "same_structure uc_block previous_uc_block"
  have "\<exists>uc'. callback_loop up [([], uc_block, previous_uc_block)] uc_block = Inr uc'"
    using s assms(2,3) by (intro callback_loop_succeeds) simp_all
  then obtain uc' where c: "callback up stage previous_uc_block uc_block = Inr uc'"
    using assms(1) by (auto simp add: callback_def)
  have "\<forall>path unit previous_unit.
                  data_at path uc_block = Some (HydroUnitBlock unit) \<and>
                  data_at path previous_uc_block = Some (HydroUnitBlock previous_unit) \<longrightarrow>
                  data_at path uc'
                    = Some (HydroUnitBlock
                              (unit\<lparr> initial_flow_rate := last_flow_rates previous_unit \<rparr>))"
    using callback_hydro[OF c assms(1) s assms(2)] by blast
  then show "\<exists>uc'. callback up stage previous_uc_block uc_block = Inr uc' \<and>
              (\<forall>path unit previous_unit.
                  data_at path uc_block = Some (HydroUnitBlock unit) \<and>
                  data_at path previous_uc_block = Some (HydroUnitBlock previous_unit) \<longrightarrow>
                  data_at path uc'
                    = Some (HydroUnitBlock
                              (unit\<lparr> initial_flow_rate := last_flow_rates previous_unit \<rparr>)))"
    using c by blast
next
  assume "\<not> same_structure uc_block previous_uc_block"
  then have "callback_loop up [([], uc_block, previous_uc_block)] uc_block = Inl StructureMismatch"
    using assms(2,3) by (intro callback_loop_fails) simp_all
  then show "callback up stage previous_uc_block uc_block = Inl StructureMismatch"
    using assms(1) by (simp add: callback_def)
qed

lemma example_facts:
  "readable (uc_with solved_hydro)" "never_fails None"
  "same_structure (uc_with empty_hydro) (uc_with solved_hydro)"
  "\<not> same_structure (uc_with (hydro_example 3 [[0, 0, 0], [0, 0, 0], [0, 0, 0]])) (uc_with solved_hydro)"
  "data_at [0] (uc_with d) = Some d"
  "last_flow_rates \<lparr> hydro_number_generators = 2, hydro_time_horizon = 3,
       flow_rate = [[1, 2, 3], [4, 5, 6]], initial_flow_rate = [0, 0] \<rparr> = [3, 6]"
  by (simp_all add: uc_with_def solved_hydro_def empty_hydro_def hydro_example_def
      unit_readable_def never_fails_def same_kind_def data_at_def last_flow_rates_def
      upt_rec numeral_2_eq_2 numeral_3_eq_3)

lemma example_units:
  "empty_hydro = HydroUnitBlock \<lparr> hydro_number_generators = 2, hydro_time_horizon = 3,
                       flow_rate = [[0, 0, 0], [0, 0, 0]], initial_flow_rate = [0, 0] \<rparr>"
  "solved_hydro = HydroUnitBlock \<lparr> hydro_number_generators = 2, hydro_time_horizon = 3,
                       flow_rate = [[1, 2, 3], [4, 5, 6]], initial_flow_rate = [0, 0] \<rparr>"
  by (simp_all add: empty_hydro_def solved_hydro_def hydro_example_def numeral_2_eq_2)

text \<open>
  The theorem at a \<^verbatim>\<open>UCBlock\<close> with one hydro unit of two generators: the flow rates 3 and 6
  of the last time of stage \<open>t\<close> become the initial flow rates of stage \<open>t + 1\<close>; against a unit
  of three generators the bridge fails.
\<close>

theorem callback_bridges_hydro_units_witness:
  "(0 :: nat) < 1 \<and> readable (uc_with solved_hydro) \<and> never_fails None
   \<and> same_structure (uc_with empty_hydro) (uc_with solved_hydro)
   \<and> (\<exists>uc'. callback None 1 (uc_with solved_hydro) (uc_with empty_hydro) = Inr uc'
         \<and> data_at [0] uc'
             = Some (HydroUnitBlock \<lparr> hydro_number_generators = 2, hydro_time_horizon = 3,
                       flow_rate = [[0, 0, 0], [0, 0, 0]], initial_flow_rate = [3, 6] \<rparr>))
   \<and> \<not> same_structure (uc_with (hydro_example 3 [[0, 0, 0], [0, 0, 0], [0, 0, 0]]))
           (uc_with solved_hydro)
   \<and> callback None 1 (uc_with solved_hydro)
         (uc_with (hydro_example 3 [[0, 0, 0], [0, 0, 0], [0, 0, 0]])) = Inl StructureMismatch"
proof -
  have one: "(0 :: nat) < 1" by simp
  note t = callback_bridges_hydro_units[OF one example_facts(1,2)]
  obtain uc' where c: "callback None 1 (uc_with solved_hydro) (uc_with empty_hydro) = Inr uc'"
    and h: "\<And>path unit previous_unit.
                  data_at path (uc_with empty_hydro) = Some (HydroUnitBlock unit) \<and>
                  data_at path (uc_with solved_hydro) = Some (HydroUnitBlock previous_unit) \<Longrightarrow>
                  data_at path uc'
                    = Some (HydroUnitBlock
                              (unit\<lparr> initial_flow_rate := last_flow_rates previous_unit \<rparr>))"
    using t[of "uc_with empty_hydro"] example_facts(3) by blast
  have "data_at [0] uc'
             = Some (HydroUnitBlock \<lparr> hydro_number_generators = 2, hydro_time_horizon = 3,
                       flow_rate = [[0, 0, 0], [0, 0, 0]], initial_flow_rate = [3, 6] \<rparr>)"
    using h[of "[0]" "\<lparr> hydro_number_generators = 2, hydro_time_horizon = 3,
                       flow_rate = [[0, 0, 0], [0, 0, 0]], initial_flow_rate = [0, 0] \<rparr>"
               "\<lparr> hydro_number_generators = 2, hydro_time_horizon = 3,
                       flow_rate = [[1, 2, 3], [4, 5, 6]], initial_flow_rate = [0, 0] \<rparr>"]
    by (simp add: example_facts(5,6) example_units)
  moreover have "callback None 1 (uc_with solved_hydro)
         (uc_with (hydro_example 3 [[0, 0, 0], [0, 0, 0], [0, 0, 0]])) = Inl StructureMismatch"
    using t[of "uc_with (hydro_example 3 [[0, 0, 0], [0, 0, 0], [0, 0, 0]])"] example_facts(4)
    by blast
  ultimately show ?thesis using one example_facts(1-4) c by blast
qed

text \<open>
  Claim C9 as stated fails: the two trees differ in the kind of a unit, an
  \<^verbatim>\<open>IntermittentUnitBlock\<close> against a \<^verbatim>\<open>SlackUnitBlock\<close>, and the bridge succeeds and leaves
  stage \<open>t + 1\<close> as it was.
\<close>

theorem callback_other_kinds_counterexample:
  "IntermittentUnitBlock \<noteq> SlackUnitBlock
   \<and> callback None 1 (uc_with SlackUnitBlock) (uc_with IntermittentUnitBlock)
       = Inr (uc_with IntermittentUnitBlock)"
  by (simp add: callback_def uc_with_def nested_pairs_def update_unit_def update_hydro_unit_def
      update_thermal_unit_def update_battery_unit_def)

end
